theory Spec2Isabelle
  imports Main
begin

section \<open>JavaScript values\<close>

text \<open>
  The values that travel through the form state: field values are strings, booleans or
  arrays of strings; validator results and per-field overrides may be any of these, or
  \<open>null\<close>/\<open>undefined\<close>.
\<close>

datatype jsval = Undefined | Null | Bool bool | Str string | Arr "jsval list"

datatype error = TypeError

text \<open>Reading a property of an object: a missing key reads as \<open>undefined\<close>.\<close>

definition prop_get :: "(string \<rightharpoonup> jsval) \<Rightarrow> string \<Rightarrow> jsval" where
  "prop_get obj k = (case obj k of None \<Rightarrow> Undefined | Some v \<Rightarrow> v)"

text \<open>JavaScript truthiness of a value (\<open>!!v\<close>).\<close>

fun truthy :: "jsval \<Rightarrow> bool" where
  "truthy Undefined = False"
| "truthy Null = False"
| "truthy (Bool b) = b"
| "truthy (Str s) = (s \<noteq> [])"
| "truthy (Arr xs) = True"

text \<open>\<open>v != null\<close>: neither \<open>null\<close> nor \<open>undefined\<close>.\<close>

definition non_null :: "jsval \<Rightarrow> bool" where
  "non_null v = (v \<noteq> Null \<and> v \<noteq> Undefined)"

fun join_comma :: "string list \<Rightarrow> string" where
  "join_comma [] = []"
| "join_comma [s] = s"
| "join_comma (s # t # ss) = s @ '','' @ join_comma (t # ss)"

text \<open>
  Modelled from the spec: \<open>toString\<close> of \<open>./utils\<close> is not under src/. The spec
  calls it stringification; this is JavaScript's string conversion, with \<open>undefined\<close>
  as the empty string, which is what makes \<open>hasOwnValue\<close> false for a field requested
  without an own value.
\<close>

fun toString :: "jsval \<Rightarrow> string" where
  "toString Undefined = []"
| "toString Null = ''null''"
| "toString (Bool b) = (if b then ''true'' else ''false'')"
| "toString (Str s) = s"
| "toString (Arr xs) =
     join_comma (map (\<lambda>x. if x = Undefined \<or> x = Null then [] else toString x) xs)"

text \<open>
  Modelled from the spec: \<open>isEmpty\<close> of \<open>./utils\<close> is not under src/. The spec
  records an error only for a payload that is not empty: a valid field (payload
  \<open>undefined\<close>, or the empty native validation message) has no key in \<open>errors\<close>, a
  non-empty string is recorded.
\<close>

definition isEmpty :: "jsval \<Rightarrow> bool" where
  "isEmpty v = (v = Undefined \<or> v = Null \<or> v = Str [] \<or> v = Arr [])"

section \<open>Events\<close>

text \<open>
  The handlers receive either a DOM event or, for programmatic use, a bare string
  (\<open>isString(e)\<close>). Of the event only \<open>e.target\<close> is read: \<open>value\<close>,
  \<open>checked\<close>, \<open>options\<close> (read for select-multiple only, whose target is a select
  element), \<open>validity.valid\<close> and \<open>validationMessage\<close>.
\<close>

record dom_option =
  o_value :: string
  selected :: bool

record target =
  t_value :: string
  checked :: bool
  options :: "dom_option list"
  valid :: bool
  validationMessage :: string

datatype event = RawString string | Event target

definition isString :: "event \<Rightarrow> bool" where
  "isString e = (case e of RawString _ \<Rightarrow> True | Event _ \<Rightarrow> False)"

text \<open>\<open>e.target\<close>, then a property of it: a string has no \<open>target\<close>, so the read throws.\<close>

definition target_of :: "event \<Rightarrow> error + target" where
  "target_of e = (case e of RawString _ \<Rightarrow> Inl TypeError | Event t \<Rightarrow> Inr t)"

section \<open>Form state, store and caches\<close>

text \<open>
  The form state \<open>{values, touched, validity, errors}\<close>; the field \<open>values\<close> is
  written \<open>vals\<close>, and \<open>e.target.value\<close> above \<open>t_value\<close>.
\<close>

record form_state =
  vals :: "string \<rightharpoonup> jsval"
  touched :: "string \<rightharpoonup> bool"
  validity :: "string \<rightharpoonup> bool"
  errors :: "string \<rightharpoonup> jsval"

text \<open>The field types: the six the engine tells apart, and any other input type.\<close>

datatype input_type = TEXT | TEXTAREA | SELECT | SELECT_MULTIPLE | CHECKBOX | RADIO
  | OTHER string

text \<open>
  Modelled from the spec: the type tags of \<open>./constants\<close> are not under src/; the spec
  names them text, textarea, select, select-multiple, checkbox, radio.
\<close>

fun type_str :: "input_type \<Rightarrow> string" where
  "type_str TEXT = ''text''"
| "type_str TEXTAREA = ''textarea''"
| "type_str SELECT = ''select''"
| "type_str SELECT_MULTIPLE = ''select-multiple''"
| "type_str CHECKBOX = ''checkbox''"
| "type_str RADIO = ''radio''"
| "type_str (OTHER s) = s"

text \<open>
  The per-field options as \<open>parseInputArgs\<close> returns them (\<open>inputOptions\<close>): the
  \<open>onChange\<close> hook with its optional override, the custom validator (\<open>None\<close> when
  \<open>validate\<close> is not a function) and the two flags. The hooks \<open>onBlur\<close>,
  \<open>onTouched\<close> and the form-level \<open>onChange\<close> return nothing the engine reads; their
  calls are recorded in the trace.
\<close>

record input_options =
  field_onChange :: "event \<Rightarrow> jsval"
  customValidate :: "(jsval \<Rightarrow> (string \<rightharpoonup> jsval) \<Rightarrow> event \<Rightarrow> jsval) option"
  validateOnBlur :: bool
  touchedOnChange :: bool

text \<open>What a handler closure captures of its binding request.\<close>

record field =
  ftype :: input_type
  name :: string
  ownValue :: jsval
  inputOptions :: input_options

text \<open>\<open>setError\<close> takes a partial object or the removal \<open>omit(name)\<close>.\<close>

datatype error_update = Partial "string \<rightharpoonup> jsval" | Omit string

text \<open>Every hook call and every write of a handler, in the order the code makes them.\<close>

datatype call =
    SetDirty string bool
  | FieldOnChange event
  | FormOnChange event "string \<rightharpoonup> jsval" "string \<rightharpoonup> jsval"
  | Validator jsval "string \<rightharpoonup> jsval" event
  | Warn string
  | SetValidity "string \<rightharpoonup> bool"
  | SetError error_update
  | SetTouched "string \<rightharpoonup> bool"
  | OnTouched event
  | FieldOnBlur event
  | FormOnBlur event
  | SetValues "string \<rightharpoonup> jsval"

text \<open>
  Modelled from the spec: the cache key prefixes \<open>ON_CHANGE_HANDLER\<close> and
  \<open>ON_BLUR_HANDLER\<close> of \<open>./constants\<close> are not under src/; the two handlers are
  cached apart, so the prefixes are two distinct tags, and a cache key is a tag with the
  field's key.
\<close>

datatype handler_tag = ON_CHANGE_HANDLER | ON_BLUR_HANDLER

datatype handler_body = ChangeBody | BlurBody

text \<open>
  A function object: its identity (the allocation number), which of the two arrow
  functions it is, and the binding request it closes over.
\<close>

record closure =
  fn_id :: nat
  fn_body :: handler_body
  fn_env :: field

text \<open>
  The engine's mutable state. The snapshot \<open>current\<close> and the \<open>store\<close> belong to the
  State Store, \<open>dirty\<close>, \<open>callbacks\<close> and \<open>missingValidateWarnings\<close> are the three
  caches of \<open>useFormState\<close>, \<open>next_fn\<close> numbers the function objects created so far,
  \<open>development\<close> is \<open>process.env.NODE_ENV === 'development'\<close>, and \<open>trace\<close> records
  the calls made.
\<close>

record engine =
  current :: form_state
  store :: form_state
  dirty :: "string \<rightharpoonup> bool"
  callbacks :: "(handler_tag \<times> string) \<rightharpoonup> closure"
  missingValidateWarnings :: "string \<rightharpoonup> bool"
  next_fn :: nat
  development :: bool
  trace :: "call list"

definition log :: "call \<Rightarrow> engine \<Rightarrow> engine" where
  "log c s = s\<lparr>trace := trace s @ [c]\<rparr>"

subsection \<open>The State Store\<close>

text \<open>
  Modelled from the spec: the State Store (\<open>./useState\<close>) is not under src/. It holds
  the four maps and exposes partial-merge setters and a read of the current snapshot.
  \<open>setValues\<close> merges a partial update into \<open>values\<close>; the engine reads
  \<open>formState.current\<close>, the snapshot, which a setter does not change.
\<close>

definition setValues :: "(string \<rightharpoonup> jsval) \<Rightarrow> engine \<Rightarrow> engine" where
  "setValues partial s =
     log (SetValues partial) (s\<lparr>store := (store s)\<lparr>vals := vals (store s) ++ partial\<rparr>\<rparr>)"

text \<open>Modelled from the spec: \<open>setTouched\<close> of the State Store, a partial merge.\<close>

definition setTouched :: "(string \<rightharpoonup> bool) \<Rightarrow> engine \<Rightarrow> engine" where
  "setTouched partial s =
     log (SetTouched partial) (s\<lparr>store := (store s)\<lparr>touched := touched (store s) ++ partial\<rparr>\<rparr>)"

text \<open>Modelled from the spec: \<open>setValidity\<close> of the State Store, a partial merge.\<close>

definition setValidity :: "(string \<rightharpoonup> bool) \<Rightarrow> engine \<Rightarrow> engine" where
  "setValidity partial s =
     log (SetValidity partial)
       (s\<lparr>store := (store s)\<lparr>validity := validity (store s) ++ partial\<rparr>\<rparr>)"

text \<open>
  Modelled from the spec: \<open>setError\<close> of the State Store, a partial merge that can also
  remove a key (the no-error case, \<open>omit(name)\<close> of \<open>./utils\<close>).
\<close>

definition setError :: "error_update \<Rightarrow> engine \<Rightarrow> engine" where
  "setError u s =
     log (SetError u)
       (s\<lparr>store := (store s)\<lparr>errors :=
          (case u of Partial p \<Rightarrow> errors (store s) ++ p
                   | Omit k \<Rightarrow> (errors (store s))(k := None))\<rparr>\<rparr>)"

text \<open>
  Modelled from the spec: the host's render cycle, in which the State Store hands out
  what the setters have merged as the next snapshot.
\<close>

definition render :: "engine \<Rightarrow> engine" where
  "render s = s\<lparr>current := store s\<rparr>"

subsection \<open>The Memoizing Cache\<close>

text \<open>
  Modelled from the spec: the cache (\<open>./useCache\<close>) is not under src/. It is a key to
  value store with \<open>getOrSet\<close>, \<open>set\<close> and \<open>has\<close>; \<open>has(key)\<close> tells whether the
  store holds the key, whatever value is stored under it.
\<close>

definition has :: "('k \<rightharpoonup> 'v) \<Rightarrow> 'k \<Rightarrow> bool" where
  "has cache k = (cache k \<noteq> None)"

text \<open>
  The dirty cache: \<open>useFormState\<close> (line 31) names its \<open>set\<close> \<open>setDirty\<close> and its
  \<open>has\<close> \<open>isDirty\<close>.
\<close>

definition setDirty :: "string \<Rightarrow> bool \<Rightarrow> engine \<Rightarrow> engine" where
  "setDirty k b s = log (SetDirty k b) (s\<lparr>dirty := (dirty s)(k \<mapsto> b)\<rparr>)"

definition isDirty :: "string \<Rightarrow> engine \<Rightarrow> bool" where
  "isDirty k s = has (dirty s) k"

text \<open>
  Modelled from the spec: \<open>getOrSet\<close> of the cache creates the entry if it is absent,
  else returns the cached value.
\<close>

definition getOrSet :: "'k \<Rightarrow> 'v \<Rightarrow> ('k \<rightharpoonup> 'v) \<Rightarrow> 'v \<times> ('k \<rightharpoonup> 'v)" where
  "getOrSet k v cache = (case cache k of Some c \<Rightarrow> (c, cache) | None \<Rightarrow> (v, cache(k \<mapsto> v)))"

text \<open>
  \<open>useFormState(initialState, options)\<close> at mount: the store is created with the
  caller's initial values and nothing touched, validated or in error; the caches are
  empty.
\<close>

definition init_engine :: "(string \<rightharpoonup> jsval) \<Rightarrow> bool \<Rightarrow> engine" where
  "init_engine initialState dev =
     (let fs = \<lparr>vals = initialState, touched = Map.empty, validity = Map.empty,
                errors = Map.empty\<rparr>
      in \<lparr>current = fs, store = fs, dirty = Map.empty, callbacks = Map.empty,
          missingValidateWarnings = Map.empty, next_fn = 0, development = dev,
          trace = []\<rparr>)"

section \<open>The binding engine\<close>

text \<open>
  \<open>createPropsGetter(type)(...args)\<close> of \<open>useFormState.js\<close>, definition by
  definition. The flags and the key of lines 39 to 45 are functions of the binding request.
\<close>

definition hasOwnValue :: "field \<Rightarrow> bool" where
  "hasOwnValue f = (toString (ownValue f) \<noteq> [])"

definition isCheckbox :: "field \<Rightarrow> bool" where
  "isCheckbox f = (ftype f = CHECKBOX)"

definition isRadio :: "field \<Rightarrow> bool" where
  "isRadio f = (ftype f = RADIO)"

definition isSelectMultiple :: "field \<Rightarrow> bool" where
  "isSelectMultiple f = (ftype f = SELECT_MULTIPLE)"

definition key :: "field \<Rightarrow> string" where
  "key f = type_str (ftype f) @ ''.'' @ name f @ ''.'' @ toString (ownValue f)"

text \<open>\<open>setInitialValue\<close> (lines 47 to 60): the default it computes, then the write.\<close>

definition initialValue :: "field \<Rightarrow> jsval" where
  "initialValue f =
     (let v = Str [];
          v = (if isCheckbox f then (if hasOwnValue f then Arr [] else Bool False) else v);
          v = (if isSelectMultiple f then Arr [] else v)
      in v)"

definition setInitialValue :: "field \<Rightarrow> engine \<Rightarrow> engine" where
  "setInitialValue f s = setValues [name f \<mapsto> initialValue f] s"

subsection \<open>The next value of a checkbox and of a select-multiple\<close>

text \<open>
  \<open>new Set(x)\<close> iterates \<open>x\<close>: nothing for \<open>undefined\<close>, the elements of an
  array, the characters of a string; a boolean is not iterable. The set keeps the first
  occurrence of each element, in insertion order.
\<close>

definition iterate :: "jsval \<Rightarrow> error + jsval list" where
  "iterate v =
     (case v of Undefined \<Rightarrow> Inr [] | Null \<Rightarrow> Inr [] | Arr xs \<Rightarrow> Inr xs
              | Str str \<Rightarrow> Inr (map (\<lambda>c. Str [c]) str) | Bool _ \<Rightarrow> Inl TypeError)"

definition set_add :: "'a \<Rightarrow> 'a list \<Rightarrow> 'a list" where
  "set_add x xs = (if x \<in> set xs then xs else xs @ [x])"

definition new_Set :: "'a list \<Rightarrow> 'a list" where
  "new_Set xs = fold set_add xs []"

definition set_delete :: "'a \<Rightarrow> 'a list \<Rightarrow> 'a list" where
  "set_delete x xs = removeAll x xs"

text \<open>\<open>getNextCheckboxValue\<close> (lines 62 to 74); the set is read from the snapshot.\<close>

definition getNextCheckboxValue :: "field \<Rightarrow> event \<Rightarrow> engine \<Rightarrow> error + jsval" where
  "getNextCheckboxValue f e s =
     (case target_of e of
        Inl err \<Rightarrow> Inl err
      | Inr t \<Rightarrow>
          if \<not> hasOwnValue f then Inr (Bool (checked t))
          else (case iterate (prop_get (vals (current s)) (name f)) of
                  Inl err \<Rightarrow> Inl err
                | Inr xs \<Rightarrow>
                    let checkedValues = new_Set xs;
                        checkedValues =
                          (if checked t then set_add (Str (t_value t)) checkedValues
                           else set_delete (Str (t_value t)) checkedValues)
                    in Inr (Arr checkedValues)))"

text \<open>\<open>getNextSelectMultipleValue\<close> (lines 76 to 82): the \<open>reduce\<close> as a fold.\<close>

definition getNextSelectMultipleValue :: "event \<Rightarrow> error + jsval" where
  "getNextSelectMultipleValue e =
     (case target_of e of
        Inl err \<Rightarrow> Inl err
      | Inr t \<Rightarrow>
          Inr (Arr (fold (\<lambda>option values.
                       if selected option then values @ [Str (o_value option)] else values)
                     (options t) [])))"

subsection \<open>Validation and touch\<close>

text \<open>
  \<open>validate\<close> (lines 84 to 121). Its callers pass the values map: the change handler
  the merged one, the blur handler the default \<open>formState.current.values\<close>. The
  warning of the development build is recorded as a call, once per key.
\<close>

definition validate :: "field \<Rightarrow> event \<Rightarrow> (string \<rightharpoonup> jsval) \<Rightarrow> engine \<Rightarrow> engine" where
  "validate f e values s =
     (let value = (case e of RawString str \<Rightarrow> Str str | Event t \<Rightarrow> Str (t_value t));
          customValidate = customValidate (inputOptions f);
          s = (if development s \<and> isString e \<and> customValidate = None
                  \<and> \<not> has (missingValidateWarnings s) (key f)
               then (log (Warn (name f)) s)
                      \<lparr>missingValidateWarnings := (missingValidateWarnings s)(key f \<mapsto> True)\<rparr>
               else s);
          (isValid, error, s) =
            (case customValidate of
               Some cv \<Rightarrow>
                 let result = cv value values e;
                     s = log (Validator value values e) s
                 in if result \<noteq> Bool True \<and> non_null result
                    then (False, if result \<noteq> Bool False then result else Str [], s)
                    else (True, Undefined, s)
             | None \<Rightarrow>
                 (case e of
                    Event t \<Rightarrow> (valid t, Str (validationMessage t), s)
                  | RawString _ \<Rightarrow> (True, Undefined, s)));
          s = setValidity [name f \<mapsto> isValid] s
      in setError (if isEmpty error then Omit (name f) else Partial [name f \<mapsto> error]) s)"

text \<open>\<open>touch\<close> (lines 123 to 128); it reads the snapshot.\<close>

definition touch :: "field \<Rightarrow> event \<Rightarrow> engine \<Rightarrow> engine" where
  "touch f e s =
     (if touched (current s) (name f) \<noteq> Some True
      then log (OnTouched e) (setTouched [name f \<mapsto> True] s)
      else s)"

subsection \<open>The handlers\<close>

text \<open>Lines 179 to 190 of the change handler: the value it will commit.\<close>

definition nextValue :: "field \<Rightarrow> event \<Rightarrow> engine \<Rightarrow> error + jsval" where
  "nextValue f e s =
     (let hasCustomValue = field_onChange (inputOptions f) e
      in case (if non_null hasCustomValue then Inr hasCustomValue
               else (case target_of e of Inl err \<Rightarrow> Inl err | Inr t \<Rightarrow> Inr (Str (t_value t)))) of
           Inl err \<Rightarrow> Inl err
         | Inr value \<Rightarrow>
             (case (if isCheckbox f then getNextCheckboxValue f e s else Inr value) of
                Inl err \<Rightarrow> Inl err
              | Inr value \<Rightarrow>
                  if isSelectMultiple f then getNextSelectMultipleValue e else Inr value))"

text \<open>
  The change handler. A throw leaves the engine as it was at the throw: the dirty flag
  set and the per-field hook called, nothing written to the store.
\<close>

definition onChange :: "field \<Rightarrow> event \<Rightarrow> engine \<Rightarrow> (error \<times> engine) + engine" where
  "onChange f e s =
     (let s = setDirty (name f) True s;
          s = log (FieldOnChange e) s
      in case nextValue f e s of
           Inl err \<Rightarrow> Inl (err, s)
         | Inr value \<Rightarrow>
             let partialNewState = [name f \<mapsto> value];
                 newValues = vals (current s) ++ partialNewState;
                 s = log (FormOnChange e (vals (current s)) newValues) s;
                 s = (if \<not> validateOnBlur (inputOptions f) then validate f e newValues s else s);
                 s = (if touchedOnChange (inputOptions f) then touch f e s else s)
             in Inr (setValues partialNewState s))"

text \<open>
  The blur handler (lines 206 to 220). Its test reads \<open>touched\<close> from the snapshot,
  which the touch routine just before has not changed.
\<close>

definition onBlur :: "field \<Rightarrow> event \<Rightarrow> engine \<Rightarrow> engine" where
  "onBlur f e s =
     (let s = touch f e s;
          s = log (FieldOnBlur e) s;
          s = log (FormOnBlur e) s
      in if touched (current s) (name f) \<noteq> Some True \<or> isDirty (name f) s
         then setDirty (name f) False (validate f e (vals (current s)) s)
         else s)"

text \<open>Calling a function object runs its body on what it closed over.\<close>

definition invoke :: "closure \<Rightarrow> event \<Rightarrow> engine \<Rightarrow> (error \<times> engine) + engine" where
  "invoke c e s =
     (case fn_body c of
        ChangeBody \<Rightarrow> onChange (fn_env c) e s
      | BlurBody \<Rightarrow> Inr (onBlur (fn_env c) e s))"

subsection \<open>The property bag\<close>

text \<open>
  A binding request fixes \<open>hasValueInState\<close> once, from the snapshot it sees; the
  getters \<open>checked\<close> and \<open>value\<close> are evaluated at each read. The \<open>id\<close> property
  belongs to the identifier provider and is left out.
\<close>

record bag =
  b_field :: field
  hasValueInState :: bool
  b_onChange :: closure
  b_onBlur :: closure

text \<open>
  The request creates the two arrow functions anew and asks the cache for each: the
  change handler under the key with \<open>ON_BLUR_HANDLER\<close> (line 177), the blur handler
  under the key with \<open>ON_CHANGE_HANDLER\<close> (line 206), as the source has them.
\<close>

definition createPropsGetter ::
  "input_type \<Rightarrow> string \<Rightarrow> jsval \<Rightarrow> input_options \<Rightarrow> engine \<Rightarrow> bag \<times> engine" where
  "createPropsGetter ty nm own opts s =
     (let f = \<lparr>ftype = ty, name = nm, ownValue = own, inputOptions = opts\<rparr>;
          hasValue = (prop_get (vals (current s)) nm \<noteq> Undefined);
          (change, cache) =
            getOrSet (ON_BLUR_HANDLER, key f)
              \<lparr>fn_id = next_fn s, fn_body = ChangeBody, fn_env = f\<rparr> (callbacks s);
          (blur, cache) =
            getOrSet (ON_CHANGE_HANDLER, key f)
              \<lparr>fn_id = next_fn s + 1, fn_body = BlurBody, fn_env = f\<rparr> cache
      in (\<lparr>b_field = f, hasValueInState = hasValue, b_onChange = change, b_onBlur = blur\<rparr>,
          s\<lparr>callbacks := cache, next_fn := next_fn s + 2\<rparr>))"

text \<open>The getters \<open>type\<close> and \<open>multiple\<close> (lines 132 to 141).\<close>

definition get_type :: "bag \<Rightarrow> jsval" where
  "get_type b =
     (let ty = ftype (b_field b)
      in if ty \<noteq> SELECT \<and> ty \<noteq> SELECT_MULTIPLE \<and> ty \<noteq> TEXTAREA then Str (type_str ty)
         else Undefined)"

definition get_multiple :: "bag \<Rightarrow> jsval" where
  "get_multiple b = (if ftype (b_field b) = SELECT_MULTIPLE then Bool True else Undefined)"

fun includes_str :: "string \<Rightarrow> string \<Rightarrow> bool" where
  "includes_str [] sub = (sub = [])"
| "includes_str (c # cs) sub = (take (length sub) (c # cs) = sub \<or> includes_str cs sub)"

text \<open>\<open>v.includes(str)\<close>: of an array or a string; any other value has no such method.\<close>

definition js_includes :: "jsval \<Rightarrow> string \<Rightarrow> error + jsval" where
  "js_includes v str =
     (case v of Arr xs \<Rightarrow> Inr (Bool (Str str \<in> set xs))
              | Str t \<Rightarrow> Inr (Bool (includes_str t str))
              | _ \<Rightarrow> Inl TypeError)"

text \<open>
  The getter \<open>checked\<close> (lines 142 to 161). It returns the engine it was given: it
  calls no setter.
\<close>

definition get_checked :: "bag \<Rightarrow> engine \<Rightarrow> (error + jsval) \<times> engine" where
  "get_checked b s =
     (let f = b_field b; values = vals (current s)
      in if isRadio f then (Inr (Bool (prop_get values (name f) = Str (toString (ownValue f)))), s)
         else if isCheckbox f then
           (if \<not> hasOwnValue f
            then (Inr (if truthy (prop_get values (name f)) then prop_get values (name f)
                       else Bool False), s)
            else if hasValueInState b
                 then (js_includes (prop_get values (name f)) (toString (ownValue f)), s)
                 else (Inr (Bool False), s))
         else (Inr Undefined, s))"

text \<open>The getter \<open>value\<close> (lines 162 to 176).\<close>

definition get_value :: "bag \<Rightarrow> engine \<Rightarrow> jsval \<times> engine" where
  "get_value b s =
     (let f = b_field b;
          s = (if \<not> hasValueInState b then setInitialValue f s else s)
      in if isCheckbox f \<or> isRadio f then (Str (toString (ownValue f)), s)
         else (if hasValueInState b then prop_get (vals (current s)) (name f) else Str [], s))"

subsection \<open>Operations of the host on the engine\<close>

text \<open>
  What the host does with the engine: request a bag, read a getter, deliver an event to a
  handler, render. An event whose handler throws leaves the engine as it was at the throw.
\<close>

datatype op =
    Request input_type string jsval input_options
  | ReadValue bag
  | ReadChecked bag
  | Invoke closure event
  | Render

fun step :: "op \<Rightarrow> engine \<Rightarrow> engine" where
  "step (Request ty nm own opts) s = snd (createPropsGetter ty nm own opts s)"
| "step (ReadValue b) s = snd (get_value b s)"
| "step (ReadChecked b) s = snd (get_checked b s)"
| "step (Invoke c e) s = (case invoke c e s of Inl (err, s') \<Rightarrow> s' | Inr s' \<Rightarrow> s')"
| "step Render s = render s"

definition run :: "op list \<Rightarrow> engine \<Rightarrow> engine" where
  "run ops s = fold step ops s"

section \<open>Observations on the engine\<close>

text \<open>The value validation reads from its trigger: \<open>isString(e) ? e : e.target.value\<close>.\<close>

definition event_value :: "event \<Rightarrow> jsval" where
  "event_value e = (case e of RawString str \<Rightarrow> Str str | Event t \<Rightarrow> Str (t_value t))"

fun is_SetValues :: "call \<Rightarrow> bool" where
  "is_SetValues (SetValues p) = True"
| "is_SetValues _ = False"

fun is_SetValidity :: "call \<Rightarrow> bool" where
  "is_SetValidity (SetValidity p) = True"
| "is_SetValidity _ = False"

fun is_Validator :: "call \<Rightarrow> bool" where
  "is_Validator (Validator v vs e) = True"
| "is_Validator _ = False"

text \<open>The calls made between two engine states, the later one extending the earlier.\<close>

definition calls_since :: "engine \<Rightarrow> engine \<Rightarrow> call list" where
  "calls_since s s' = drop (length (trace s)) (trace s')"

text \<open>
  The validation routine ran between two states: it always commits \<open>validity[name]\<close>,
  and nothing else does.
\<close>

definition validates :: "engine \<Rightarrow> engine \<Rightarrow> bool" where
  "validates s s' = (filter is_SetValidity (calls_since s s') \<noteq> [])"

text \<open>The engine after a change event, whether the handler returned or threw.\<close>

definition after_change :: "field \<Rightarrow> event \<Rightarrow> engine \<Rightarrow> engine" where
  "after_change f e s = (case onChange f e s of Inl (err, s') \<Rightarrow> s' | Inr s' \<Rightarrow> s')"

fun changes_name :: "string \<Rightarrow> op \<Rightarrow> bool" where
  "changes_name n (Invoke c e) = (fn_body c = ChangeBody \<and> name (fn_env c) = n)"
| "changes_name n _ = False"

fun blurs_name :: "string \<Rightarrow> op \<Rightarrow> bool" where
  "blurs_name n (Invoke c e) = (fn_body c = BlurBody \<and> name (fn_env c) = n)"
| "blurs_name n _ = False"

subsection \<open>Invariants\<close>










text \<open>A name touched so far only by change events is dirty.\<close>

definition touched_only_dirty :: "string \<Rightarrow> engine \<Rightarrow> bool" where
  "touched_only_dirty n s =
     (touched (current s) n = Some True \<or> touched (store s) n = Some True \<longrightarrow> isDirty n s)"

text \<open>A name whose value is defined, and: what the snapshot has defined, the store has too.\<close>

definition defined_in :: "form_state \<Rightarrow> string \<Rightarrow> bool" where
  "defined_in fs n = (prop_get (vals fs) n \<noteq> Undefined)"

definition store_defined_ahead :: "engine \<Rightarrow> bool" where
  "store_defined_ahead s = (\<forall>n. defined_in (current s) n \<longrightarrow> defined_in (store s) n)"

section \<open>The spec's reading of two properties\<close>

text \<open>
  The spec: a radio is checked iff \<open>values[name]\<close> stringified equals \<open>ownValue\<close>
  stringified.
\<close>

definition radio_checked_spec :: "(string \<rightharpoonup> jsval) \<Rightarrow> field \<Rightarrow> bool" where
  "radio_checked_spec values f = (toString (prop_get values (name f)) = toString (ownValue f))"



section \<open>Concrete inputs\<close>

definition no_options :: input_options where
  "no_options = \<lparr>field_onChange = (\<lambda>e. Undefined), customValidate = None,
      validateOnBlur = False, touchedOnChange = False\<rparr>"

definition dom_event :: "string \<Rightarrow> bool \<Rightarrow> event" where
  "dom_event v c =
     Event \<lparr>t_value = v, checked = c, options = [], valid = True, validationMessage = []\<rparr>"

text \<open>Two validators: one that rejects with no message, one that requires a value.\<close>

definition reject :: "jsval \<Rightarrow> (string \<rightharpoonup> jsval) \<Rightarrow> event \<Rightarrow> jsval" where
  "reject v values e = Bool False"

definition required :: "jsval \<Rightarrow> (string \<rightharpoonup> jsval) \<Rightarrow> event \<Rightarrow> jsval" where
  "required v values e = (if v = Str [] then Str ''required'' else Bool True)"

definition validated_by ::
  "(jsval \<Rightarrow> (string \<rightharpoonup> jsval) \<Rightarrow> event \<Rightarrow> jsval) \<Rightarrow> input_options" where
  "validated_by cv = no_options\<lparr>customValidate := Some cv\<rparr>"

definition email_field :: "input_options \<Rightarrow> field" where
  "email_field opts = \<lparr>ftype = TEXT, name = ''email'', ownValue = Undefined, inputOptions = opts\<rparr>"

definition opt_field :: "input_options \<Rightarrow> field" where
  "opt_field opts =
     \<lparr>ftype = CHECKBOX, name = ''opt'', ownValue = Str ''red'', inputOptions = opts\<rparr>"

text \<open>A bare checkbox whose per-field hook returns an override.\<close>

definition agree_field :: field where
  "agree_field =
     \<lparr>ftype = CHECKBOX, name = ''agree'', ownValue = Undefined,
      inputOptions = no_options\<lparr>field_onChange := (\<lambda>e. Str ''yes'')\<rparr>\<rparr>"

definition mount :: engine where
  "mount = init_engine Map.empty False"

definition email_bag :: bag where
  "email_bag = fst (createPropsGetter TEXT ''email'' Undefined no_options mount)"

definition email_mounted :: engine where
  "email_mounted = snd (createPropsGetter TEXT ''email'' Undefined no_options mount)"

text \<open>The two handlers of the text field \<open>email\<close> without options, as function objects.\<close>

definition email_change :: closure where
  "email_change = \<lparr>fn_id = 0, fn_body = ChangeBody, fn_env = email_field no_options\<rparr>"

definition email_blur :: closure where
  "email_blur = \<lparr>fn_id = 1, fn_body = BlurBody, fn_env = email_field no_options\<rparr>"

text \<open>
  The user types into \<open>email\<close> and leaves the field, with a render after each event.
\<close>

definition typed_then_blurred :: engine where
  "typed_then_blurred =
     run [Invoke email_change (dom_event ''a'' False), Render,
          Invoke email_blur (dom_event ''a'' False), Render] mount"



section \<open>Basic facts\<close>

lemmas store_defs = setValues_def setTouched_def setValidity_def setError_def setDirty_def log_def

lemma run_Nil: "run [] s = s"
  by (simp add: run_def)

lemma run_Cons: "run (x # xs) s = run xs (step x s)"
  by (simp add: run_def)

lemma setValues_vals: "vals (store (setValues [k \<mapsto> v] s)) = (vals (store s))(k \<mapsto> v)"
  by (simp add: setValues_def log_def)

lemma mount_state:
  "vals (current mount) = Map.empty" "touched (current mount) = Map.empty"
  "touched (store mount) = Map.empty" "dirty mount = Map.empty" "trace mount = []"
  by (simp_all add: mount_def init_engine_def Let_def)

subsection \<open>The set behind a checkbox array, and the selected options\<close>

lemma set_new_Set_aux: "set (fold set_add xs acc) = set xs \<union> set acc"
  by (induction xs arbitrary: acc) (auto simp: set_add_def)

lemma distinct_new_Set_aux: "distinct acc \<Longrightarrow> distinct (fold set_add xs acc)"
  by (induction xs arbitrary: acc) (auto simp: set_add_def)

lemma set_new_Set: "set (new_Set xs) = set xs"
  by (simp add: new_Set_def set_new_Set_aux)

lemma distinct_new_Set: "distinct (new_Set xs)"
  by (simp add: new_Set_def distinct_new_Set_aux)

lemma select_fold_aux:
  "fold (\<lambda>option values. if selected option then values @ [Str (o_value option)] else values) os acc
   = acc @ map (\<lambda>option. Str (o_value option)) (filter selected os)"
  by (induction os arbitrary: acc) auto

subsection \<open>What validation and touch leave alone, and what they call\<close>

lemma validate_frame:
  "current (validate f e vs s) = current s"
  "vals (store (validate f e vs s)) = vals (store s)"
  "touched (store (validate f e vs s)) = touched (store s)"
  "dirty (validate f e vs s) = dirty s"
  "callbacks (validate f e vs s) = callbacks s"
  by (simp_all add: validate_def store_defs Let_def split: option.splits event.splits)

lemma touch_frame:
  "current (touch f e s) = current s"
  "vals (store (touch f e s)) = vals (store s)"
  "dirty (touch f e s) = dirty s"
  "callbacks (touch f e s) = callbacks s"
  by (simp_all add: touch_def store_defs)

lemma touch_touched:
  "touched (store (touch f e s)) =
     (if touched (current s) (name f) \<noteq> Some True then (touched (store s))(name f \<mapsto> True)
      else touched (store s))"
  by (simp add: touch_def store_defs)

lemma touch_trace:
  "trace (touch f e s) = trace s @
     (if touched (current s) (name f) \<noteq> Some True then [SetTouched [name f \<mapsto> True], OnTouched e]
      else [])"
  by (simp add: touch_def store_defs)

lemma validate_custom_effect:
  assumes "customValidate (inputOptions f) = Some cv"
    and "r = cv (event_value e) values e"
    and "s' = validate f e values s"
  shows "trace s' = trace s @
           [Validator (event_value e) values e,
            SetValidity [name f \<mapsto> (r = Bool True \<or> \<not> non_null r)],
            SetError (if r = Bool True \<or> \<not> non_null r \<or> r = Bool False \<or> isEmpty r
                      then Omit (name f) else Partial [name f \<mapsto> r])]"
    and "validity (store s') = (validity (store s))(name f \<mapsto> (r = Bool True \<or> \<not> non_null r))"
    and "errors (store s') =
             (if r = Bool True \<or> \<not> non_null r \<or> r = Bool False \<or> isEmpty r
              then (errors (store s))(name f := None)
              else (errors (store s))(name f \<mapsto> r))"
  using assms
  by (auto simp: validate_def event_value_def store_defs isEmpty_def non_null_def Let_def
      split: event.splits)

lemma validate_trace:
  "\<exists>V b. trace (validate f e vs s) = trace s @ V \<and> filter is_SetValues V = []
      \<and> filter is_SetValidity V = [SetValidity [name f \<mapsto> b]]"
  by (cases "customValidate (inputOptions f)")
     (auto simp: validate_def store_defs Let_def split: event.splits)

subsection \<open>The value a change commits\<close>

lemma nextValue_current:
  assumes "current s' = current s"
  shows "nextValue f e s' = nextValue f e s"
  unfolding nextValue_def getNextCheckboxValue_def assms by (rule refl)

lemma nextValue_Event:
  "nextValue f (Event t) s =
     (if ftype f = CHECKBOX then getNextCheckboxValue f (Event t) s
      else if ftype f = SELECT_MULTIPLE
           then Inr (Arr (map (\<lambda>option. Str (o_value option)) (filter selected (options t))))
      else Inr (if non_null (field_onChange (inputOptions f) (Event t))
                then field_onChange (inputOptions f) (Event t) else Str (t_value t)))"
  by (auto simp: nextValue_def getNextSelectMultipleValue_def target_of_def isCheckbox_def
      isSelectMultiple_def select_fold_aux Let_def split: sum.splits)

lemma nextValue_RawString:
  "nextValue f (RawString str) s =
     (if ftype f = CHECKBOX \<or> ftype f = SELECT_MULTIPLE
         \<or> \<not> non_null (field_onChange (inputOptions f) (RawString str))
      then Inl TypeError else Inr (field_onChange (inputOptions f) (RawString str)))"
  by (auto simp: nextValue_def getNextSelectMultipleValue_def getNextCheckboxValue_def
      target_of_def isCheckbox_def isSelectMultiple_def Let_def split: sum.splits)

lemma getNextCheckboxValue_Event:
  "getNextCheckboxValue f (Event t) s = Inr v \<Longrightarrow>
     (if hasOwnValue f
      then \<exists>xs ys. iterate (prop_get (vals (current s)) (name f)) = Inr xs \<and> v = Arr ys
             \<and> ys = (if checked t then set_add (Str (t_value t)) (new_Set xs)
                     else set_delete (Str (t_value t)) (new_Set xs))
             \<and> distinct ys
             \<and> set ys = (if checked t then insert (Str (t_value t)) (set xs)
                         else set xs - {Str (t_value t)})
      else v = Bool (checked t))"
  by (auto simp: getNextCheckboxValue_def target_of_def Let_def set_add_def set_delete_def
      set_new_Set distinct_new_Set distinct_removeAll split: sum.splits if_splits)

subsection \<open>The change handler, step by step\<close>

lemma onChange_Inr:
  assumes "onChange f e s = Inr s'"
  obtains v V where "nextValue f e s = Inr v"
    and "trace s' = trace s @ [SetDirty (name f) True, FieldOnChange e,
          FormOnChange e (vals (current s)) ((vals (current s))(name f \<mapsto> v))] @ V
          @ (if touchedOnChange (inputOptions f) \<and> touched (current s) (name f) \<noteq> Some True
             then [SetTouched [name f \<mapsto> True], OnTouched e] else [])
          @ [SetValues [name f \<mapsto> v]]"
    and "filter is_SetValues V = []"
    and "validateOnBlur (inputOptions f) \<longrightarrow> V = []"
    and "\<forall>cv. \<not> validateOnBlur (inputOptions f) \<and> customValidate (inputOptions f) = Some cv \<longrightarrow>
           (\<exists>ok upd. V = [Validator (event_value e) ((vals (current s))(name f \<mapsto> v)) e,
                          SetValidity ok, SetError upd])"
    and "current s' = current s"
    and "vals (store s') = (vals (store s))(name f \<mapsto> v)"
proof -
  let ?s1 = "log (FieldOnChange e) (setDirty (name f) True s)"
  have cur1: "current ?s1 = current s" by (simp add: store_defs)
  from assms obtain v where nv: "nextValue f e ?s1 = Inr v"
    by (auto simp: onChange_def Let_def split: sum.splits)
  then have nv': "nextValue f e s = Inr v" using nextValue_current [OF cur1] by simp
  let ?next = "(vals (current s))(name f \<mapsto> v)"
  let ?s2 = "log (FormOnChange e (vals (current s)) ?next) ?s1"
  let ?s3 = "if \<not> validateOnBlur (inputOptions f) then validate f e ?next ?s2 else ?s2"
  let ?s4 = "if touchedOnChange (inputOptions f) then touch f e ?s3 else ?s3"
  have "onChange f e s = Inr (setValues [name f \<mapsto> v] ?s4)"
    using nv by (simp add: onChange_def Let_def cur1 split del: if_split cong: if_cong)
  with assms have s': "s' = setValues [name f \<mapsto> v] ?s4" by simp
  obtain V0 where V0: "trace (validate f e ?next ?s2) = trace ?s2 @ V0"
    "filter is_SetValues V0 = []"
    using validate_trace by blast
  define V where "V = (if \<not> validateOnBlur (inputOptions f) then V0 else [])"
  have tr3: "trace ?s3 = trace ?s2 @ V" using V0 by (simp add: V_def)
  have cur2: "current ?s2 = current s" by (simp add: store_defs)
  have tr4: "trace ?s4 = trace ?s3 @
          (if touchedOnChange (inputOptions f) \<and> touched (current s) (name f) \<noteq> Some True
             then [SetTouched [name f \<mapsto> True], OnTouched e] else [])"
    by (simp add: touch_trace validate_frame cur2)
  have tr2: "trace ?s2 = trace s @ [SetDirty (name f) True, FieldOnChange e,
          FormOnChange e (vals (current s)) ?next]"
    by (simp add: store_defs)
  have "trace s' = trace ?s4 @ [SetValues [name f \<mapsto> v]]"
    unfolding s' by (simp add: setValues_def log_def)
  then have trace: "trace s' = trace s @ [SetDirty (name f) True, FieldOnChange e,
          FormOnChange e (vals (current s)) ?next] @ V
          @ (if touchedOnChange (inputOptions f) \<and> touched (current s) (name f) \<noteq> Some True
             then [SetTouched [name f \<mapsto> True], OnTouched e] else [])
          @ [SetValues [name f \<mapsto> v]]"
    unfolding tr4 tr3 tr2 by simp
  have noval: "filter is_SetValues V = []" using V0 by (simp add: V_def)
  have vob: "validateOnBlur (inputOptions f) \<longrightarrow> V = []" by (simp add: V_def)
  have custom: "\<forall>cv. \<not> validateOnBlur (inputOptions f) \<and> customValidate (inputOptions f) = Some cv
       \<longrightarrow> (\<exists>ok upd. V = [Validator (event_value e) ?next e, SetValidity ok, SetError upd])"
  proof (intro allI impI)
    fix cv
    assume a: "\<not> validateOnBlur (inputOptions f) \<and> customValidate (inputOptions f) = Some cv"
    then have "trace (validate f e ?next ?s2) = trace ?s2 @ V" using V0 by (simp add: V_def)
    with validate_custom_effect(1) [of f cv _ e ?next _ ?s2, OF _ refl refl] a
    show "\<exists>ok upd. V = [Validator (event_value e) ?next e, SetValidity ok, SetError upd]"
      by simp
  qed
  have cur': "current s' = current s"
    unfolding s' by (simp add: setValues_def log_def validate_frame touch_frame store_defs)
  have vals': "vals (store s') = (vals (store s))(name f \<mapsto> v)"
    unfolding s' by (simp add: setValues_def log_def validate_frame touch_frame setDirty_def)
  from nv' trace noval vob custom cur' vals' show thesis by (rule that)
qed

lemma after_change_vals:
  assumes "nextValue f e s = Inr v"
  shows "vals (store (after_change f e s)) = (vals (store s))(name f \<mapsto> v)"
    and "\<exists>s'. onChange f e s = Inr s'"
proof -
  have "nextValue f e (log (FieldOnChange e) (setDirty (name f) True s)) = Inr v"
    using assms nextValue_current [of "log (FieldOnChange e) (setDirty (name f) True s)" s f e]
    by (simp add: store_defs)
  then show "vals (store (after_change f e s)) = (vals (store s))(name f \<mapsto> v)"
    and "\<exists>s'. onChange f e s = Inr s'"
    by (simp_all add: after_change_def onChange_def Let_def validate_frame touch_frame
        setValues_def setDirty_def log_def)
qed

lemma after_change_frame:
  "current (after_change f e s) = current s"
  "dirty (after_change f e s) = (dirty s)(name f \<mapsto> True)"
  "callbacks (after_change f e s) = callbacks s"
  "touched (store (after_change f e s)) m = Some True \<longleftrightarrow>
     touched (store s) m = Some True
     \<or> (m = name f \<and> touchedOnChange (inputOptions f) \<and> touched (current s) (name f) \<noteq> Some True
         \<and> (\<exists>s'. onChange f e s = Inr s'))"
  by (auto simp: after_change_def onChange_def Let_def store_defs touch_frame validate_frame
      touch_touched split: sum.splits)

text \<open>
  When the change handler returns: on a DOM event always, but for a checkbox with own
  value whose stored value is a boolean (a bare checkbox shares its name), which is not
  iterable; on a bare string only with a non-null override, and not for a checkbox or a
  select-multiple.
\<close>

lemma onChange_returns_iff: "(\<exists>s'. onChange f e s = Inr s') = (\<exists>v. nextValue f e s = Inr v)"
proof
  assume "\<exists>s'. onChange f e s = Inr s'"
  then obtain s' where r: "onChange f e s = Inr s'" ..
  obtain v where "nextValue f e s = Inr v" by (rule onChange_Inr [OF r])
  then show "\<exists>v. nextValue f e s = Inr v" ..
next
  assume "\<exists>v. nextValue f e s = Inr v"
  then obtain v where "nextValue f e s = Inr v" ..
  then show "\<exists>s'. onChange f e s = Inr s'" by (rule after_change_vals(2))
qed

lemma onChange_Event_returns:
  "(\<exists>s'. onChange f (Event t) s = Inr s') =
     (\<not> (ftype f = CHECKBOX \<and> hasOwnValue f
          \<and> (\<exists>b. prop_get (vals (current s)) (name f) = Bool b)))"
  unfolding onChange_returns_iff nextValue_Event
  by (cases "prop_get (vals (current s)) (name f)")
     (auto simp: getNextCheckboxValue_def target_of_def iterate_def Let_def)

lemma onChange_RawString_returns:
  "(\<exists>s'. onChange f (RawString str) s = Inr s') =
     (ftype f \<noteq> CHECKBOX \<and> ftype f \<noteq> SELECT_MULTIPLE
      \<and> non_null (field_onChange (inputOptions f) (RawString str)))"
  unfolding onChange_returns_iff nextValue_RawString by auto

subsection \<open>The blur handler\<close>

lemma onBlur_validates:
  "validates s (onBlur f e s) = (touched (current s) (name f) \<noteq> Some True \<or> isDirty (name f) s)"
proof -
  let ?s3 = "log (FormOnBlur e) (log (FieldOnBlur e) (touch f e s))"
  have cur: "current ?s3 = current s" by (simp add: log_def touch_frame)
  have dirty: "isDirty (name f) ?s3 = isDirty (name f) s"
    by (simp add: isDirty_def log_def touch_frame)
  have tr3: "filter is_SetValidity (drop (length (trace s)) (trace ?s3)) = []"
    by (simp add: log_def touch_trace)
  obtain V b where V: "trace (validate f e (vals (current s)) ?s3) = trace ?s3 @ V"
    "filter is_SetValidity V = [SetValidity [name f \<mapsto> b]]"
    using validate_trace by blast
  have len: "length (trace s) \<le> length (trace ?s3)" by (simp add: log_def touch_trace)
  show ?thesis
  proof (cases "touched (current s) (name f) \<noteq> Some True \<or> isDirty (name f) s")
    case True
    then have "onBlur f e s = setDirty (name f) False (validate f e (vals (current s)) ?s3)"
      by (simp add: onBlur_def Let_def cur dirty)
    then have "trace (onBlur f e s) = trace ?s3 @ V @ [SetDirty (name f) False]"
      using V by (simp add: setDirty_def log_def)
    then show ?thesis using True tr3 V(2) len
      by (simp add: validates_def calls_since_def)
  next
    case False
    then have "onBlur f e s = ?s3" by (simp add: onBlur_def Let_def cur dirty)
    then show ?thesis using False tr3 by (simp add: validates_def calls_since_def)
  qed
qed

lemma onBlur_dirty:
  "dirty (onBlur f e s) =
     (if touched (current s) (name f) \<noteq> Some True \<or> isDirty (name f) s
      then (dirty s)(name f \<mapsto> False) else dirty s)"
  by (simp add: onBlur_def Let_def isDirty_def log_def touch_frame validate_frame setDirty_def)

lemma onBlur_touched:
  "touched (store (onBlur f e s)) =
     (if touched (current s) (name f) \<noteq> Some True then (touched (store s))(name f \<mapsto> True)
      else touched (store s))"
  by (simp add: onBlur_def Let_def isDirty_def log_def touch_frame validate_frame setDirty_def
      touch_touched)

lemma onBlur_current: "current (onBlur f e s) = current s"
  by (simp add: onBlur_def Let_def log_def touch_frame validate_frame setDirty_def)

lemma onBlur_callbacks: "callbacks (onBlur f e s) = callbacks s"
  by (simp add: onBlur_def Let_def log_def touch_frame validate_frame setDirty_def)


subsection \<open>One operation of the host\<close>

lemma step_Invoke:
  "step (Invoke c e) s =
     (case fn_body c of ChangeBody \<Rightarrow> after_change (fn_env c) e s
                      | BlurBody \<Rightarrow> onBlur (fn_env c) e s)"
  by (simp add: invoke_def after_change_def split: handler_body.splits)

lemma step_other_frame:
  "current (step (Request ty nm own opts) s) = current s"
  "store (step (Request ty nm own opts) s) = store s"
  "dirty (step (Request ty nm own opts) s) = dirty s"
  "current (step (ReadValue b) s) = current s"
  "touched (store (step (ReadValue b) s)) = touched (store s)"
  "dirty (step (ReadValue b) s) = dirty s"
  "step (ReadChecked b) s = s"
  "current (step Render s) = store s"
  "store (step Render s) = store s"
  "dirty (step Render s) = dirty s"
  by (simp_all add: createPropsGetter_def get_value_def get_checked_def setInitialValue_def
      render_def store_defs Let_def split: prod.splits)

section \<open>The change handler\<close>

text \<open>
  C1, as the code has it: the value a change commits to \<open>values[name]\<close> depends on the
  field type first. For a checkbox it is always the recomputed checkbox value: the raw
  \<open>checked\<close> boolean without own value, else the array of the current set with the
  event's value added (checked) or removed (unchecked), without duplicates. For a
  select-multiple it is always the array of the selected options. For every other type it
  is the per-field hook's override when that is non-null, else the event's text value. A
  bare string as event is accepted only with a non-null override on such a type.
\<close>

theorem onChange_value_by_type:
  assumes "onChange f e s = Inr s'"
  shows "\<exists>v. vals (store s') (name f) = Some v \<and>
     (case e of
        Event t \<Rightarrow>
          (if ftype f = CHECKBOX then
             (if hasOwnValue f
              then \<exists>xs ys. iterate (prop_get (vals (current s)) (name f)) = Inr xs \<and> v = Arr ys
                     \<and> ys = (if checked t then set_add (Str (t_value t)) (new_Set xs)
                             else set_delete (Str (t_value t)) (new_Set xs))
                     \<and> distinct ys
                     \<and> set ys = (if checked t then insert (Str (t_value t)) (set xs)
                                 else set xs - {Str (t_value t)})
              else v = Bool (checked t))
           else if ftype f = SELECT_MULTIPLE
                then v = Arr (map (\<lambda>option. Str (o_value option)) (filter selected (options t)))
           else v = (if non_null (field_onChange (inputOptions f) e)
                     then field_onChange (inputOptions f) e else Str (t_value t)))
      | RawString str \<Rightarrow>
          ftype f \<noteq> CHECKBOX \<and> ftype f \<noteq> SELECT_MULTIPLE
          \<and> non_null (field_onChange (inputOptions f) e)
          \<and> v = field_onChange (inputOptions f) e)"
proof -
  obtain v where
    nv: "nextValue f e s = Inr v" and st: "vals (store s') = (vals (store s))(name f \<mapsto> v)"
    by (rule onChange_Inr [OF assms])
  have "vals (store s') (name f) = Some v" using st by simp
  moreover have "case e of
        Event t \<Rightarrow>
          (if ftype f = CHECKBOX then
             (if hasOwnValue f
              then \<exists>xs ys. iterate (prop_get (vals (current s)) (name f)) = Inr xs \<and> v = Arr ys
                     \<and> ys = (if checked t then set_add (Str (t_value t)) (new_Set xs)
                             else set_delete (Str (t_value t)) (new_Set xs))
                     \<and> distinct ys
                     \<and> set ys = (if checked t then insert (Str (t_value t)) (set xs)
                                 else set xs - {Str (t_value t)})
              else v = Bool (checked t))
           else if ftype f = SELECT_MULTIPLE
                then v = Arr (map (\<lambda>option. Str (o_value option)) (filter selected (options t)))
           else v = (if non_null (field_onChange (inputOptions f) e)
                     then field_onChange (inputOptions f) e else Str (t_value t)))
      | RawString str \<Rightarrow>
          ftype f \<noteq> CHECKBOX \<and> ftype f \<noteq> SELECT_MULTIPLE
          \<and> non_null (field_onChange (inputOptions f) e)
          \<and> v = field_onChange (inputOptions f) e"
  proof (cases e)
    case (RawString str)
    with nv show ?thesis by (simp add: nextValue_RawString split: if_splits)
  next
    case (Event t)
    show ?thesis
    proof (cases "ftype f = CHECKBOX")
      case True
      with nv Event have "getNextCheckboxValue f (Event t) s = Inr v"
        by (simp add: nextValue_Event)
      from getNextCheckboxValue_Event [OF this] True Event show ?thesis by simp
    next
      case False
      with nv Event show ?thesis by (auto simp: nextValue_Event split: if_splits)
    qed
  qed
  ultimately show ?thesis by blast
qed

lemma email_nextValue:
  "field_onChange opts = (\<lambda>e. Undefined) \<Longrightarrow>
     nextValue (email_field opts) (dom_event v c) s = Inr (Str v)"
  by (simp add: nextValue_Event dom_event_def email_field_def non_null_def)

theorem onChange_value_by_type_witness:
  "\<exists>s'. onChange (email_field no_options) (dom_event ''a@b.com'' False) mount = Inr s'
     \<and> vals (store s') ''email'' = Some (Str ''a@b.com'')"
proof -
  have "nextValue (email_field no_options) (dom_event ''a@b.com'' False) mount
          = Inr (Str ''a@b.com'')"
    by (simp add: email_nextValue no_options_def)
  from after_change_vals(2) [OF this] obtain s' where
    r: "onChange (email_field no_options) (dom_event ''a@b.com'' False) mount = Inr s'"
    by blast
  from onChange_value_by_type [OF r] have "vals (store s') ''email'' = Some (Str ''a@b.com'')"
    by (simp add: dom_event_def email_field_def no_options_def non_null_def)
  with r show ?thesis by blast
qed

text \<open>
  C1 as the spec states it fails for a checkbox: the per-field hook of \<open>agree_field\<close>
  returns the non-null override \<open>'yes'\<close>, the handler returns, and the value committed
  is the \<open>checked\<close> boolean of the event, not the override.
\<close>

theorem override_ignored_counterexample:
  "field_onChange (inputOptions agree_field) (dom_event ''on'' True) = Str ''yes''
   \<and> non_null (Str ''yes'')
   \<and> onChange agree_field (dom_event ''on'' True) mount
       = Inr (after_change agree_field (dom_event ''on'' True) mount)
   \<and> vals (store (after_change agree_field (dom_event ''on'' True) mount)) ''agree''
       = Some (Bool True)"
proof -
  have nv: "nextValue agree_field (dom_event ''on'' True) mount = Inr (Bool True)"
    by (simp add: nextValue_Event getNextCheckboxValue_def target_of_def hasOwnValue_def
        agree_field_def dom_event_def)
  from after_change_vals(2) [OF nv]
  have "onChange agree_field (dom_event ''on'' True) mount
          = Inr (after_change agree_field (dom_event ''on'' True) mount)"
    by (auto simp: after_change_def)
  moreover from after_change_vals(1) [OF nv]
  have "vals (store (after_change agree_field (dom_event ''on'' True) mount)) ''agree''
          = Some (Bool True)"
    by (simp add: agree_field_def)
  ultimately show ?thesis
    by (simp add: agree_field_def no_options_def non_null_def)
qed

text \<open>
  C5: a change handler that returns has called the form-level \<open>onChange\<close> hook with the
  event, the snapshot's values and those values with the field's new value merged in;
  it has written \<open>values\<close> once, as its last call, so every hook and the validation ran
  before the commit; the snapshot is the one the handler started with; and, unless
  \<open>validateOnBlur\<close> is set, a configured validator was called with the merged values.
\<close>

theorem onChange_commit_last:
  assumes "onChange f e s = Inr s'"
  shows "\<exists>v V. vals (store s') = (vals (store s))(name f \<mapsto> v)
     \<and> current s' = current s
     \<and> trace s' = trace s @ [SetDirty (name f) True, FieldOnChange e,
          FormOnChange e (vals (current s)) ((vals (current s))(name f \<mapsto> v))] @ V
          @ (if touchedOnChange (inputOptions f) \<and> touched (current s) (name f) \<noteq> Some True
             then [SetTouched [name f \<mapsto> True], OnTouched e] else [])
          @ [SetValues [name f \<mapsto> v]]
     \<and> filter is_SetValues V = []
     \<and> (validateOnBlur (inputOptions f) \<longrightarrow> V = [])
     \<and> (\<forall>cv. \<not> validateOnBlur (inputOptions f) \<and> customValidate (inputOptions f) = Some cv \<longrightarrow>
           (\<exists>ok upd. V = [Validator (event_value e) ((vals (current s))(name f \<mapsto> v)) e,
                          SetValidity ok, SetError upd]))"
proof (rule onChange_Inr [OF assms])
  fix v V
  assume "trace s' = trace s @ [SetDirty (name f) True, FieldOnChange e,
          FormOnChange e (vals (current s)) ((vals (current s))(name f \<mapsto> v))] @ V
          @ (if touchedOnChange (inputOptions f) \<and> touched (current s) (name f) \<noteq> Some True
             then [SetTouched [name f \<mapsto> True], OnTouched e] else [])
          @ [SetValues [name f \<mapsto> v]]"
    and "filter is_SetValues V = []"
    and "validateOnBlur (inputOptions f) \<longrightarrow> V = []"
    and "\<forall>cv. \<not> validateOnBlur (inputOptions f) \<and> customValidate (inputOptions f) = Some cv \<longrightarrow>
           (\<exists>ok upd. V = [Validator (event_value e) ((vals (current s))(name f \<mapsto> v)) e,
                          SetValidity ok, SetError upd])"
    and "current s' = current s"
    and "vals (store s') = (vals (store s))(name f \<mapsto> v)"
  then show ?thesis by (intro exI [of _ v] exI [of _ V] conjI)
qed

theorem onChange_commit_last_witness:
  "\<exists>s' v ok upd.
     onChange (email_field (validated_by required)) (dom_event ''a@b.com'' False) mount = Inr s'
     \<and> trace s' =
         [SetDirty ''email'' True, FieldOnChange (dom_event ''a@b.com'' False),
          FormOnChange (dom_event ''a@b.com'' False) Map.empty [''email'' \<mapsto> v],
          Validator (Str ''a@b.com'') [''email'' \<mapsto> v] (dom_event ''a@b.com'' False),
          SetValidity ok, SetError upd, SetValues [''email'' \<mapsto> v]]
     \<and> current s' = current mount"
proof -
  let ?f = "email_field (validated_by required)"
  let ?e = "dom_event ''a@b.com'' False"
  have "nextValue ?f ?e mount = Inr (Str ''a@b.com'')"
    by (simp add: email_nextValue validated_by_def no_options_def)
  from after_change_vals(2) [OF this] obtain s' where r: "onChange ?f ?e mount = Inr s'"
    by blast
  from onChange_commit_last [OF r] obtain v V where
    tr: "trace s' = trace mount @ [SetDirty (name ?f) True, FieldOnChange ?e,
          FormOnChange ?e (vals (current mount)) ((vals (current mount))(name ?f \<mapsto> v))] @ V
          @ (if touchedOnChange (inputOptions ?f) \<and> touched (current mount) (name ?f) \<noteq> Some True
             then [SetTouched [name ?f \<mapsto> True], OnTouched ?e] else [])
          @ [SetValues [name ?f \<mapsto> v]]"
    and cur: "current s' = current mount"
    and cv: "\<forall>cv. \<not> validateOnBlur (inputOptions ?f) \<and> customValidate (inputOptions ?f) = Some cv
       \<longrightarrow> (\<exists>ok upd. V = [Validator (event_value ?e) ((vals (current mount))(name ?f \<mapsto> v)) ?e,
                          SetValidity ok, SetError upd])"
    by (elim exE conjE) (rule that)
  have opts: "\<not> validateOnBlur (inputOptions ?f)" "customValidate (inputOptions ?f) = Some required"
    "\<not> touchedOnChange (inputOptions ?f)" "name ?f = ''email''"
    by (simp_all add: email_field_def validated_by_def no_options_def)
  from cv opts obtain ok upd where
    V: "V = [Validator (event_value ?e) ((vals (current mount))(name ?f \<mapsto> v)) ?e,
             SetValidity ok, SetError upd]"
    by blast
  let ?next = "[''email'' \<mapsto> v]"
  have full: "trace s' = [SetDirty ''email'' True, FieldOnChange ?e,
          FormOnChange ?e Map.empty ?next,
          Validator (Str ''a@b.com'') ?next ?e, SetValidity ok, SetError upd,
          SetValues ?next]"
    using tr V opts by (simp add: mount_state event_value_def dom_event_def)
  from r full cur show ?thesis by blast
qed

text \<open>
  C10: when a change on a checkbox or select-multiple field triggers validation with a
  configured validator, the change is a DOM event, the validator is called once, its
  first argument is the raw \<open>value\<close> string of the event target and not the computed
  next value (a boolean or an array), and the computed value appears under the field's
  name in the merged values map passed second, the one committed afterwards.
\<close>

theorem validator_gets_raw_value:
  assumes "ftype f = CHECKBOX \<or> ftype f = SELECT_MULTIPLE"
    and "customValidate (inputOptions f) = Some cv"
    and "\<not> validateOnBlur (inputOptions f)"
    and "onChange f e s = Inr s'"
  shows "\<exists>t v. e = Event t \<and> vals (store s') (name f) = Some v
     \<and> ((\<exists>b. v = Bool b) \<or> (\<exists>xs. v = Arr xs))
     \<and> filter is_Validator (calls_since s s')
         = [Validator (Str (t_value t)) ((vals (current s))(name f \<mapsto> v)) e]
     \<and> Str (t_value t) \<noteq> v"
proof -
  obtain v V where
    nv: "nextValue f e s = Inr v"
    and tr: "trace s' = trace s @ [SetDirty (name f) True, FieldOnChange e,
          FormOnChange e (vals (current s)) ((vals (current s))(name f \<mapsto> v))] @ V
          @ (if touchedOnChange (inputOptions f) \<and> touched (current s) (name f) \<noteq> Some True
             then [SetTouched [name f \<mapsto> True], OnTouched e] else [])
          @ [SetValues [name f \<mapsto> v]]"
    and custom: "\<forall>cv. \<not> validateOnBlur (inputOptions f) \<and> customValidate (inputOptions f) = Some cv
       \<longrightarrow> (\<exists>ok upd. V = [Validator (event_value e) ((vals (current s))(name f \<mapsto> v)) e,
                          SetValidity ok, SetError upd])"
    and st: "vals (store s') = (vals (store s))(name f \<mapsto> v)"
    by (rule onChange_Inr [OF assms(4)])
  from custom assms(2,3) obtain ok upd where
    V: "V = [Validator (event_value e) ((vals (current s))(name f \<mapsto> v)) e,
                 SetValidity ok, SetError upd]"
    by blast
  from nv assms(1) obtain t where e: "e = Event t"
    by (cases e) (auto simp: nextValue_RawString)
  have shape: "(\<exists>b. v = Bool b) \<or> (\<exists>xs. v = Arr xs)"
  proof (cases "ftype f = CHECKBOX")
    case True
    with nv e have "getNextCheckboxValue f (Event t) s = Inr v" by (simp add: nextValue_Event)
    from getNextCheckboxValue_Event [OF this] show ?thesis by (auto split: if_splits)
  next
    case False
    with assms(1) nv e show ?thesis by (auto simp: nextValue_Event)
  qed
  have "filter is_Validator (calls_since s s')
         = [Validator (Str (t_value t)) ((vals (current s))(name f \<mapsto> v)) e]"
    unfolding calls_since_def tr V by (simp add: e event_value_def)
  moreover have "Str (t_value t) \<noteq> v" using shape by auto
  moreover have "vals (store s') (name f) = Some v" using st by simp
  ultimately show ?thesis using e shape by blast
qed

theorem validator_gets_raw_value_witness:
  "\<exists>s'. onChange (opt_field (validated_by required)) (dom_event ''red'' True) mount = Inr s'
     \<and> vals (store s') ''opt'' = Some (Arr [Str ''red''])
     \<and> filter is_Validator (calls_since mount s')
         = [Validator (Str ''red'') [''opt'' \<mapsto> Arr [Str ''red'']] (dom_event ''red'' True)]"
proof -
  let ?f = "opt_field (validated_by required)"
  let ?e = "dom_event ''red'' True"
  have opts: "ftype ?f = CHECKBOX \<or> ftype ?f = SELECT_MULTIPLE"
    "customValidate (inputOptions ?f) = Some required" "\<not> validateOnBlur (inputOptions ?f)"
    "name ?f = ''opt''"
    by (simp_all add: opt_field_def validated_by_def no_options_def)
  have nv: "nextValue ?f ?e mount = Inr (Arr [Str ''red''])"
    by (simp add: nextValue_Event getNextCheckboxValue_def target_of_def hasOwnValue_def
        opt_field_def dom_event_def mount_state prop_get_def iterate_def new_Set_def
        set_add_def)
  from after_change_vals(2) [OF nv] obtain s' where r: "onChange ?f ?e mount = Inr s'"
    by blast
  have v: "vals (store s') ''opt'' = Some (Arr [Str ''red''])"
    using after_change_vals(1) [OF nv] r by (simp add: after_change_def opts)
  from validator_gets_raw_value [OF opts(1) opts(2) opts(3) r] v
  have "filter is_Validator (calls_since mount s')
         = [Validator (Str ''red'') [''opt'' \<mapsto> Arr [Str ''red'']] ?e]"
    by (auto simp: opts mount_state dom_event_def)
  with r v show ?thesis by blast
qed

section \<open>Validation\<close>

text \<open>
  C2, as the code has it: with a configured validator, validation calls it with the value,
  the values map and the trigger; a result of exactly \<open>true\<close>, or \<open>null\<close> or
  \<open>undefined\<close>, commits \<open>validity[name] = true\<close> and removes the key from \<open>errors\<close>;
  any other result commits \<open>validity[name] = false\<close>, and \<open>errors[name]\<close> becomes the
  result when that is neither \<open>false\<close> nor empty, while for \<open>false\<close> (payload
  \<open>''\<close>) and for an empty result the key is removed.
\<close>

theorem validate_custom:
  assumes "customValidate (inputOptions f) = Some cv"
    and "r = cv (event_value e) values e"
    and "s' = validate f e values s"
  shows "trace s' = trace s @
           [Validator (event_value e) values e,
            SetValidity [name f \<mapsto> (r = Bool True \<or> \<not> non_null r)],
            SetError (if r = Bool True \<or> \<not> non_null r \<or> r = Bool False \<or> isEmpty r
                      then Omit (name f) else Partial [name f \<mapsto> r])]
         \<and> validity (store s') = (validity (store s))(name f \<mapsto> (r = Bool True \<or> \<not> non_null r))
         \<and> errors (store s') =
             (if r = Bool True \<or> \<not> non_null r \<or> r = Bool False \<or> isEmpty r
              then (errors (store s))(name f := None)
              else (errors (store s))(name f \<mapsto> r))
         \<and> vals (store s') = vals (store s) \<and> touched (store s') = touched (store s)
         \<and> current s' = current s"
  using validate_custom_effect [OF assms] assms(3) by (simp add: validate_frame)

theorem validate_custom_witness:
  "validity (store (validate (email_field (validated_by required)) (dom_event [] False)
       Map.empty mount)) ''email'' = Some False
   \<and> errors (store (validate (email_field (validated_by required)) (dom_event [] False)
       Map.empty mount)) ''email'' = Some (Str ''required'')"
  using validate_custom [of "email_field (validated_by required)" required "Str ''required''"
      "dom_event [] False" Map.empty _ mount, OF _ _ refl]
  by (simp add: email_field_def validated_by_def no_options_def required_def event_value_def
      dom_event_def non_null_def isEmpty_def)

text \<open>
  C2 as the spec states it fails for a validator that returns exactly \<open>false\<close>: the
  field becomes invalid, and \<open>errors\<close> gets no key for it rather than the empty string.
\<close>

theorem validate_false_counterexample:
  "reject (Str ''x'') Map.empty (dom_event ''x'' False) = Bool False
   \<and> validity (store (validate (email_field (validated_by reject)) (dom_event ''x'' False)
       Map.empty mount)) ''email'' = Some False
   \<and> errors (store (validate (email_field (validated_by reject)) (dom_event ''x'' False)
       Map.empty mount)) ''email'' = None
   \<and> errors (store (validate (email_field (validated_by reject)) (dom_event ''x'' False)
       Map.empty mount)) ''email'' \<noteq> Some (Str [])"
  using validate_custom_effect(2,3) [of "email_field (validated_by reject)" reject "Bool False"
      "dom_event ''x'' False" Map.empty _ mount, OF _ _ refl]
  by (simp add: email_field_def validated_by_def no_options_def reject_def non_null_def)

section \<open>Errors and validity\<close>










subsection \<open>Both directions, when no validation ends invalid with an empty payload\<close>

















section \<open>Blur, touch and the dirty flag\<close>

lemma step_touched_only_dirty:
  assumes "touched_only_dirty n s" and "\<not> blurs_name n x"
  shows "touched_only_dirty n (step x s)"
proof (cases x)
  case (Invoke c e)
  show ?thesis
  proof (cases "fn_body c")
    case ChangeBody
    then show ?thesis using assms(1) Invoke
      by (auto simp del: step.simps
          simp: step_Invoke touched_only_dirty_def isDirty_def has_def after_change_frame)
  next
    case BlurBody
    then have "name (fn_env c) \<noteq> n" using assms(2) Invoke by simp
    then show ?thesis using assms(1) Invoke BlurBody
      by (auto simp del: step.simps
          simp: step_Invoke touched_only_dirty_def isDirty_def has_def onBlur_dirty
          onBlur_touched onBlur_current)
  qed
qed (use assms(1) in \<open>auto simp del: step.simps
       simp: touched_only_dirty_def isDirty_def step_other_frame\<close>)

lemma run_touched_only_dirty:
  "touched_only_dirty n s \<Longrightarrow> \<not> list_ex (blurs_name n) ops \<Longrightarrow> touched_only_dirty n (run ops s)"
  unfolding run_def
  by (induction ops arbitrary: s) (simp_all add: step_touched_only_dirty)

lemma init_touched_only_dirty: "touched_only_dirty n (init_engine iv dev)"
  by (simp add: touched_only_dirty_def init_engine_def Let_def)

subsection \<open>The dirty key stays\<close>

lemma step_dirty_kept: "isDirty n s \<Longrightarrow> isDirty n (step x s)"
proof (cases x)
  case (Invoke c e)
  assume "isDirty n s"
  then show ?thesis using Invoke
    by (auto simp del: step.simps
        simp: step_Invoke isDirty_def has_def after_change_frame onBlur_dirty
        split: handler_body.splits)
qed (simp_all del: step.simps add: isDirty_def step_other_frame)

lemma step_change_dirty: "changes_name n x \<Longrightarrow> isDirty n (step x s)"
  by (cases x)
     (auto simp del: step.simps simp: step_Invoke isDirty_def has_def after_change_frame)

lemma run_dirty_kept: "isDirty n s \<Longrightarrow> isDirty n (run ops s)"
  unfolding run_def
  by (induction ops arbitrary: s) (simp_all add: step_dirty_kept)

lemma run_change_dirty: "list_ex (changes_name n) ops \<Longrightarrow> isDirty n (run ops s)"
proof (induction ops arbitrary: s)
  case Nil
  then show ?case by simp
next
  case (Cons x xs)
  show ?case
  proof (cases "changes_name n x")
    case True
    then show ?thesis by (simp add: run_Cons run_dirty_kept step_change_dirty)
  next
    case False
    with Cons show ?thesis by (simp add: run_Cons)
  qed
qed

text \<open>
  C4, what the code does: a blur runs validation iff the field was not touched in the
  snapshot or \<open>isDirty(name)\<close> holds, and the first blur on a name, after any
  operations from mount that are no blur on that name, validates. But \<open>isDirty\<close> is
  the cache's \<open>has\<close>: a validating blur stores \<open>false\<close> under the name and the name
  still reads dirty, so once a change on the name has happened every blur on it
  validates, with or without a change or a render in between.
\<close>

theorem dirty_flag_never_clears:
  "validates s (onBlur f e s) = (touched (current s) (name f) \<noteq> Some True \<or> isDirty (name f) s)
   \<and> (validates s (onBlur f e s) \<longrightarrow> dirty (onBlur f e s) (name f) = Some False
        \<and> isDirty (name f) (onBlur f e s))
   \<and> (\<not> list_ex (blurs_name (name f)) ops \<longrightarrow>
        validates (run ops (init_engine iv dev)) (onBlur f e (run ops (init_engine iv dev))))
   \<and> (list_ex (changes_name (name f)) ops \<longrightarrow>
        validates (run ops s) (onBlur f e (run ops s)))"
proof (intro conjI impI)
  show "validates s (onBlur f e s)
      = (touched (current s) (name f) \<noteq> Some True \<or> isDirty (name f) s)"
    by (rule onBlur_validates)
  assume "validates s (onBlur f e s)"
  then have c: "touched (current s) (name f) \<noteq> Some True \<or> isDirty (name f) s"
    by (simp add: onBlur_validates)
  then show "dirty (onBlur f e s) (name f) = Some False" by (simp add: onBlur_dirty)
  from c show "isDirty (name f) (onBlur f e s)"
    by (simp add: onBlur_dirty isDirty_def has_def)
next
  assume "\<not> list_ex (blurs_name (name f)) ops"
  then have "touched_only_dirty (name f) (run ops (init_engine iv dev))"
    by (simp add: run_touched_only_dirty init_touched_only_dirty)
  then show "validates (run ops (init_engine iv dev)) (onBlur f e (run ops (init_engine iv dev)))"
    by (auto simp: onBlur_validates touched_only_dirty_def)
next
  assume "list_ex (changes_name (name f)) ops"
  then have "isDirty (name f) (run ops s)" by (rule run_change_dirty)
  then show "validates (run ops s) (onBlur f e (run ops s))"
    by (simp add: onBlur_validates)
qed

lemma typed_then_blurred_state:
  "touched (current typed_then_blurred) ''email'' = Some True"
  "dirty typed_then_blurred ''email'' = Some False"
proof -
  let ?f = "email_field no_options"
  let ?e = "dom_event ''a'' False"
  let ?s1 = "after_change ?f ?e mount"
  have n: "name ?f = ''email''" "\<not> touchedOnChange (inputOptions ?f)"
    by (simp_all add: email_field_def no_options_def)
  have t1: "touched (store ?s1) ''email'' \<noteq> Some True"
    by (simp add: after_change_frame n mount_state)
  have eq: "typed_then_blurred = render (onBlur ?f ?e (render ?s1))"
    by (simp del: step.simps add: typed_then_blurred_def run_Cons run_Nil step_Invoke
        step.simps(5) email_change_def email_blur_def)
  have c2: "touched (current (render ?s1)) ''email'' \<noteq> Some True"
    using t1 by (simp add: render_def)
  show "touched (current typed_then_blurred) ''email'' = Some True"
    unfolding eq using c2 by (simp add: render_def onBlur_touched n)
  show "dirty typed_then_blurred ''email'' = Some False"
    unfolding eq using c2 by (simp add: render_def onBlur_dirty n)
qed

theorem dirty_flag_never_clears_witness:
  "touched (current typed_then_blurred) ''email'' = Some True
   \<and> dirty typed_then_blurred ''email'' = Some False
   \<and> validates typed_then_blurred
       (onBlur (email_field no_options) (dom_event ''a'' False) typed_then_blurred)"
proof -
  have "list_ex (changes_name (name (email_field no_options)))
          [Invoke email_change (dom_event ''a'' False), Render,
           Invoke email_blur (dom_event ''a'' False), Render]"
    by (simp add: email_change_def)
  from dirty_flag_never_clears [of mount "email_field no_options" "dom_event ''a'' False"
      "[Invoke email_change (dom_event ''a'' False), Render,
        Invoke email_blur (dom_event ''a'' False), Render]" Map.empty False,
      THEN conjunct2, THEN conjunct2, THEN conjunct2, THEN mp, OF this]
  have "validates typed_then_blurred
       (onBlur (email_field no_options) (dom_event ''a'' False) typed_then_blurred)"
    unfolding typed_then_blurred_def .
  with typed_then_blurred_state show ?thesis by simp
qed

section \<open>The property bag\<close>

lemma request_bag:
  "b_field (fst (createPropsGetter ty nm own opts s))
     = \<lparr>ftype = ty, name = nm, ownValue = own, inputOptions = opts\<rparr>"
  "hasValueInState (fst (createPropsGetter ty nm own opts s))
     = (prop_get (vals (current s)) nm \<noteq> Undefined)"
  by (simp_all add: createPropsGetter_def Let_def split: prod.splits)

lemma initialValue_eq:
  "initialValue f =
     (if ftype f = SELECT_MULTIPLE then Arr []
      else if ftype f = CHECKBOX then (if toString (ownValue f) \<noteq> [] then Arr [] else Bool False)
      else Str [])"
  by (simp add: initialValue_def isCheckbox_def isSelectMultiple_def hasOwnValue_def Let_def)

lemma get_value_uninitialized:
  "\<not> hasValueInState b \<Longrightarrow>
     get_value b s' =
       (if ftype (b_field b) = CHECKBOX \<or> ftype (b_field b) = RADIO
        then Str (toString (ownValue (b_field b))) else Str [],
        setValues [name (b_field b) \<mapsto> initialValue (b_field b)] s')"
  by (simp add: get_value_def setInitialValue_def isCheckbox_def isRadio_def Let_def)

lemma get_value_initialized:
  "hasValueInState b \<Longrightarrow>
     get_value b s' =
       (if ftype (b_field b) = CHECKBOX \<or> ftype (b_field b) = RADIO
        then Str (toString (ownValue (b_field b)))
        else prop_get (vals (current s')) (name (b_field b)), s')"
  by (simp add: get_value_def isCheckbox_def isRadio_def Let_def)

text \<open>
  C6, as the code has it: whether a read of \<open>value\<close> initializes is fixed when the bag
  is requested. A bag requested while \<open>values[name]\<close> is undefined writes the
  type-correct default (\<open>[]\<close> for select-multiple and for a checkbox with own value,
  \<open>false\<close> for a bare checkbox, \<open>''\<close> otherwise) into \<open>values[name]\<close> at every read
  of its \<open>value\<close>, in whatever state the read happens; a bag requested while
  \<open>values[name]\<close> is defined writes nothing at any read.
\<close>

theorem value_read_initializes:
  "(prop_get (vals (current s)) nm = Undefined \<longrightarrow>
      get_value (fst (createPropsGetter ty nm own opts s)) s' =
        (if ty = CHECKBOX \<or> ty = RADIO then Str (toString own) else Str [],
         setValues [nm \<mapsto> (if ty = SELECT_MULTIPLE then Arr []
                            else if ty = CHECKBOX
                                 then (if toString own \<noteq> [] then Arr [] else Bool False)
                            else Str [])] s')
      \<and> vals (store (snd (get_value (fst (createPropsGetter ty nm own opts s)) s'))) =
          (vals (store s'))(nm \<mapsto> (if ty = SELECT_MULTIPLE then Arr []
                            else if ty = CHECKBOX
                                 then (if toString own \<noteq> [] then Arr [] else Bool False)
                            else Str [])))
   \<and> (prop_get (vals (current s)) nm \<noteq> Undefined \<longrightarrow>
      get_value (fst (createPropsGetter ty nm own opts s)) s' =
        (if ty = CHECKBOX \<or> ty = RADIO then Str (toString own)
         else prop_get (vals (current s')) nm, s'))"
proof (intro conjI impI)
  assume u: "prop_get (vals (current s)) nm = Undefined"
  then have h: "\<not> hasValueInState (fst (createPropsGetter ty nm own opts s))"
    by (simp add: request_bag)
  show g: "get_value (fst (createPropsGetter ty nm own opts s)) s' =
        (if ty = CHECKBOX \<or> ty = RADIO then Str (toString own) else Str [],
         setValues [nm \<mapsto> (if ty = SELECT_MULTIPLE then Arr []
                            else if ty = CHECKBOX
                                 then (if toString own \<noteq> [] then Arr [] else Bool False)
                            else Str [])] s')"
    unfolding get_value_uninitialized [OF h] request_bag initialValue_eq by simp
  show "vals (store (snd (get_value (fst (createPropsGetter ty nm own opts s)) s'))) =
          (vals (store s'))(nm \<mapsto> (if ty = SELECT_MULTIPLE then Arr []
                            else if ty = CHECKBOX
                                 then (if toString own \<noteq> [] then Arr [] else Bool False)
                            else Str []))"
    unfolding g by (simp only: snd_conv setValues_vals)
next
  assume "prop_get (vals (current s)) nm \<noteq> Undefined"
  then have h: "hasValueInState (fst (createPropsGetter ty nm own opts s))"
    by (simp add: request_bag)
  show "get_value (fst (createPropsGetter ty nm own opts s)) s' =
        (if ty = CHECKBOX \<or> ty = RADIO then Str (toString own)
         else prop_get (vals (current s')) nm, s')"
    unfolding get_value_initialized [OF h] request_bag by simp
qed

theorem value_read_initializes_witness:
  "prop_get (vals (current mount)) ''email'' = Undefined
   \<and> fst (get_value email_bag email_mounted) = Str []
   \<and> vals (store (snd (get_value email_bag email_mounted))) ''email'' = Some (Str [])
   \<and> prop_get (vals (current (init_engine [''email'' \<mapsto> Str ''a@b.com''] False))) ''email''
       \<noteq> Undefined
   \<and> get_value (fst (createPropsGetter TEXT ''email'' Undefined no_options
          (init_engine [''email'' \<mapsto> Str ''a@b.com''] False)))
        (init_engine [''email'' \<mapsto> Str ''a@b.com''] False)
       = (Str ''a@b.com'', init_engine [''email'' \<mapsto> Str ''a@b.com''] False)"
  using value_read_initializes [of mount "''email''" TEXT Undefined no_options email_mounted]
    value_read_initializes [of "init_engine [''email'' \<mapsto> Str ''a@b.com''] False" "''email''"
      TEXT Undefined no_options "init_engine [''email'' \<mapsto> Str ''a@b.com''] False"]
  by (simp add: mount_state prop_get_def email_bag_def init_engine_def setValues_vals Let_def)

lemma email_bag_eq:
  "hasValueInState email_bag = False"
  "b_field email_bag = email_field no_options"
  "b_onChange email_bag = \<lparr>fn_id = 0, fn_body = ChangeBody, fn_env = email_field no_options\<rparr>"
  by (simp_all add: email_bag_def createPropsGetter_def getOrSet_def mount_def init_engine_def
      prop_get_def email_field_def Let_def)

lemma read_email_bag:
  "step (ReadValue email_bag) s = setValues [''email'' \<mapsto> Str []] s"
  by (simp add: get_value_uninitialized email_bag_eq initialValue_eq email_field_def)

lemma change_email:
  "vals (store (step (Invoke (b_onChange email_bag) (dom_event ''a@b.com'' False)) s))
     = (vals (store s))(''email'' \<mapsto> Str ''a@b.com'')"
proof -
  have "nextValue (email_field no_options) (dom_event ''a@b.com'' False) s
          = Inr (Str ''a@b.com'')"
    by (simp add: email_nextValue no_options_def)
  from after_change_vals(1) [OF this] show ?thesis
    by (simp del: step.simps add: step_Invoke email_bag_eq email_field_def)
qed

text \<open>
  C6 as the spec states it fails on a second read of the same bag: the bag of the text
  field \<open>email\<close> is requested at mount and read, the user types \<open>a@b.com\<close>, which is
  committed and rendered, and a second read of the bag's \<open>value\<close> writes the default
  again: \<open>values.email\<close> is back to the empty string.
\<close>

theorem value_read_resets_counterexample:
  "vals (current (run [ReadValue email_bag, Render,
                       Invoke (b_onChange email_bag) (dom_event ''a@b.com'' False), Render]
                    email_mounted)) ''email'' = Some (Str ''a@b.com'')
   \<and> vals (current (run [ReadValue email_bag, Render,
                       Invoke (b_onChange email_bag) (dom_event ''a@b.com'' False), Render,
                       ReadValue email_bag, Render]
                    email_mounted)) ''email'' = Some (Str [])"
  by (simp del: step.simps
      add: run_Cons run_Nil step_other_frame read_email_bag change_email setValues_vals)

subsection \<open>A defined value stays defined\<close>

lemma nextValue_defined: "nextValue f e s = Inr v \<Longrightarrow> v \<noteq> Undefined"
proof (cases e)
  case (RawString str)
  assume "nextValue f e s = Inr v"
  with RawString show ?thesis
    by (auto simp: nextValue_RawString non_null_def split: if_splits)
next
  case (Event t)
  assume nv: "nextValue f e s = Inr v"
  show ?thesis
  proof (cases "ftype f = CHECKBOX")
    case True
    with nv Event have "getNextCheckboxValue f (Event t) s = Inr v" by (simp add: nextValue_Event)
    from getNextCheckboxValue_Event [OF this] show ?thesis by (auto split: if_splits)
  next
    case False
    with nv Event show ?thesis by (auto simp: nextValue_Event non_null_def split: if_splits)
  qed
qed

lemma after_change_thrown:
  assumes "nextValue f e s = Inl err"
  shows "store (after_change f e s) = store s"
proof -
  have "nextValue f e (log (FieldOnChange e) (setDirty (name f) True s)) = Inl err"
    using assms nextValue_current [of "log (FieldOnChange e) (setDirty (name f) True s)" s f e]
    by (simp add: store_defs)
  then show ?thesis
    by (simp add: after_change_def onChange_def Let_def store_defs)
qed

lemma after_change_defined:
  "defined_in (store s) n \<Longrightarrow> defined_in (store (after_change f e s)) n"
proof (cases "nextValue f e s")
  case (Inl err)
  assume "defined_in (store s) n"
  then show ?thesis by (simp add: after_change_thrown [OF Inl])
next
  case (Inr v)
  assume "defined_in (store s) n"
  then show ?thesis using after_change_vals(1) [OF Inr] nextValue_defined [OF Inr]
    by (simp add: defined_in_def prop_get_def)
qed

lemma onBlur_vals: "vals (store (onBlur f e s)) = vals (store s)"
  by (simp add: onBlur_def Let_def log_def touch_frame validate_frame setDirty_def)

lemma onBlur_defined: "defined_in (store (onBlur f e s)) n = defined_in (store s) n"
  by (simp add: defined_in_def onBlur_vals)

lemma step_store_defined:
  assumes "defined_in (store s) n"
  shows "defined_in (store (step x s)) n"
proof (cases x)
  case (ReadValue b)
  then show ?thesis using assms
    by (auto simp: get_value_def setInitialValue_def setValues_vals initialValue_eq defined_in_def
        prop_get_def Let_def)
next
  case (Invoke c e)
  then show ?thesis using assms
    by (simp del: step.simps add: step_Invoke after_change_defined onBlur_defined
        split: handler_body.splits)
qed (use assms in \<open>simp_all del: step.simps add: step_other_frame\<close>)

lemma step_store_defined_ahead:
  assumes "store_defined_ahead s"
  shows "store_defined_ahead (step x s)"
proof (cases x)
  case Render
  then show ?thesis by (simp add: store_defined_ahead_def render_def)
next
  case (Invoke c e)
  have "current (step x s) = current s"
    using Invoke
    by (simp del: step.simps add: step_Invoke after_change_frame onBlur_current
        split: handler_body.splits)
  then show ?thesis using assms step_store_defined [of s _ x]
    by (simp add: store_defined_ahead_def defined_in_def)
next
  case (Request ty nm own opts)
  then show ?thesis using assms
    by (simp del: step.simps add: store_defined_ahead_def step_other_frame)
next
  case (ReadValue b)
  then have "current (step x s) = current s" by (simp del: step.simps add: step_other_frame)
  then show ?thesis using assms step_store_defined [of s _ x]
    by (simp add: store_defined_ahead_def defined_in_def)
next
  case (ReadChecked b)
  then show ?thesis using assms by (simp del: step.simps add: step_other_frame)
qed

lemma step_current_defined:
  assumes "store_defined_ahead s" and "defined_in (current s) n"
  shows "defined_in (current (step x s)) n"
proof (cases x)
  case Render
  then show ?thesis using assms by (simp add: store_defined_ahead_def render_def)
next
  case (Invoke c e)
  then show ?thesis using assms(2)
    by (simp del: step.simps add: step_Invoke after_change_frame onBlur_current
        split: handler_body.splits)
qed (use assms(2) in \<open>simp_all del: step.simps add: step_other_frame\<close>)

lemma run_store_defined_ahead: "store_defined_ahead s \<Longrightarrow> store_defined_ahead (run ops s)"
  unfolding run_def
  by (induction ops arbitrary: s) (simp_all add: step_store_defined_ahead)

lemma run_current_defined:
  "store_defined_ahead s \<Longrightarrow> defined_in (current s) n \<Longrightarrow> defined_in (current (run ops s)) n"
  unfolding run_def
  by (induction ops arbitrary: s) (simp_all add: step_store_defined_ahead step_current_defined)

lemma init_store_defined_ahead: "store_defined_ahead (init_engine iv dev)"
  by (simp add: store_defined_ahead_def init_engine_def Let_def)

text \<open>
  C7: for a checkbox with an own value, reading \<open>checked\<close> of a bag requested while
  \<open>values[name]\<close> was undefined gives false and leaves the whole engine, and so the
  form state, as it was: no initialization happens. In every run from mount this covers
  each read made while \<open>values[name]\<close> is undefined, whenever the bag was requested.
\<close>

theorem checked_no_initialization:
  assumes "toString own \<noteq> []"
  shows "(prop_get (vals (current s)) nm = Undefined \<longrightarrow>
           get_checked (fst (createPropsGetter CHECKBOX nm own opts s)) s' = (Inr (Bool False), s'))
    \<and> (prop_get (vals (current
           (run ops' (snd (createPropsGetter CHECKBOX nm own opts (run ops (init_engine iv dev)))))))
          nm = Undefined \<longrightarrow>
         get_checked (fst (createPropsGetter CHECKBOX nm own opts (run ops (init_engine iv dev))))
           (run ops' (snd (createPropsGetter CHECKBOX nm own opts (run ops (init_engine iv dev)))))
         = (Inr (Bool False),
            run ops' (snd (createPropsGetter CHECKBOX nm own opts (run ops (init_engine iv dev))))))"
proof (intro conjI impI)
  fix s0 s1
  show req: "get_checked (fst (createPropsGetter CHECKBOX nm own opts s0)) s1 = (Inr (Bool False), s1)"
    if "prop_get (vals (current s0)) nm = Undefined" for s0 s1
    using that assms
    by (simp add: get_checked_def request_bag isRadio_def isCheckbox_def hasOwnValue_def Let_def)
  let ?s0 = "run ops (init_engine iv dev)"
  let ?s1 = "snd (createPropsGetter CHECKBOX nm own opts ?s0)"
  assume u: "prop_get (vals (current (run ops' ?s1))) nm = Undefined"
  have ahead: "store_defined_ahead ?s1"
    using step_store_defined_ahead [of ?s0 "Request CHECKBOX nm own opts"]
    by (simp add: run_store_defined_ahead init_store_defined_ahead)
  have "prop_get (vals (current ?s0)) nm = Undefined"
  proof (rule ccontr)
    assume "prop_get (vals (current ?s0)) nm \<noteq> Undefined"
    then have "defined_in (current ?s1) nm"
      using step_other_frame(1) [of CHECKBOX nm own opts ?s0] by (simp add: defined_in_def)
    from run_current_defined [OF ahead this, of ops'] u show False
      by (simp add: defined_in_def)
  qed
  then show "get_checked (fst (createPropsGetter CHECKBOX nm own opts ?s0)) (run ops' ?s1)
         = (Inr (Bool False), run ops' ?s1)"
    by (rule req)
qed

theorem checked_no_initialization_witness:
  "toString (Str ''red'') \<noteq> []
   \<and> prop_get (vals (current mount)) ''opt'' = Undefined
   \<and> get_checked (fst (createPropsGetter CHECKBOX ''opt'' (Str ''red'') no_options mount))
        (snd (createPropsGetter CHECKBOX ''opt'' (Str ''red'') no_options mount))
      = (Inr (Bool False), snd (createPropsGetter CHECKBOX ''opt'' (Str ''red'') no_options mount))"
  using checked_no_initialization [of "Str ''red''" mount "''opt''" no_options
      "snd (createPropsGetter CHECKBOX ''opt'' (Str ''red'') no_options mount)"]
  by (simp add: mount_state prop_get_def)

text \<open>
  C9, as the code has it: for a radio field, \<open>checked\<close> is true iff \<open>values[name]\<close>
  is strictly equal to the stringified own value, that is, iff it is a string and its
  stringification equals that of the own value. Reading it changes nothing.
\<close>

theorem radio_checked_strict:
  "ftype (b_field b) = RADIO \<Longrightarrow>
     get_checked b s =
       (Inr (Bool (prop_get (vals (current s)) (name (b_field b))
                     = Str (toString (ownValue (b_field b))))), s)
     \<and> ((prop_get (vals (current s)) (name (b_field b)) = Str (toString (ownValue (b_field b))))
          = (\<exists>str. prop_get (vals (current s)) (name (b_field b)) = Str str
                \<and> radio_checked_spec (vals (current s)) (b_field b)))"
  by (auto simp: get_checked_def isRadio_def Let_def radio_checked_spec_def)

theorem radio_checked_strict_witness:
  "ftype (b_field (fst (createPropsGetter RADIO ''color'' (Str ''red'') no_options
       (init_engine [''color'' \<mapsto> Str ''red''] False)))) = RADIO
   \<and> fst (get_checked (fst (createPropsGetter RADIO ''color'' (Str ''red'') no_options
              (init_engine [''color'' \<mapsto> Str ''red''] False)))
            (init_engine [''color'' \<mapsto> Str ''red''] False)) = Inr (Bool True)"
  using radio_checked_strict [of
      "fst (createPropsGetter RADIO ''color'' (Str ''red'') no_options
         (init_engine [''color'' \<mapsto> Str ''red''] False))"
      "init_engine [''color'' \<mapsto> Str ''red''] False"]
  by (simp add: request_bag init_engine_def prop_get_def Let_def)

text \<open>
  C9 as the spec states it fails when \<open>values[name]\<close> is not a string: with the initial
  state \<open>{agree: true}\<close> and the radio \<open>('agree', true)\<close> both stringify to
  \<open>'true'\<close>, and \<open>checked\<close> is false.
\<close>

theorem radio_checked_counterexample:
  "fst (get_checked (fst (createPropsGetter RADIO ''agree'' (Bool True) no_options
          (init_engine [''agree'' \<mapsto> Bool True] False)))
        (init_engine [''agree'' \<mapsto> Bool True] False)) = Inr (Bool False)
   \<and> radio_checked_spec [''agree'' \<mapsto> Bool True]
        \<lparr>ftype = RADIO, name = ''agree'', ownValue = Bool True, inputOptions = no_options\<rparr>"
  by (simp add: get_checked_def request_bag init_engine_def isRadio_def
      radio_checked_spec_def prop_get_def Let_def)

section \<open>Handler identity\<close>

lemma request_stores:
  "callbacks (snd (createPropsGetter ty nm own opts s))
      (ON_BLUR_HANDLER, key \<lparr>ftype = ty, name = nm, ownValue = own, inputOptions = opts\<rparr>)
     = Some (b_onChange (fst (createPropsGetter ty nm own opts s)))"
  "callbacks (snd (createPropsGetter ty nm own opts s))
      (ON_CHANGE_HANDLER, key \<lparr>ftype = ty, name = nm, ownValue = own, inputOptions = opts\<rparr>)
     = Some (b_onBlur (fst (createPropsGetter ty nm own opts s)))"
  by (auto simp: createPropsGetter_def getOrSet_def Let_def split: prod.splits option.splits)

lemma request_cached:
  assumes "callbacks s (ON_BLUR_HANDLER,
             key \<lparr>ftype = ty, name = nm, ownValue = own, inputOptions = opts\<rparr>) = Some c"
    and "callbacks s (ON_CHANGE_HANDLER,
             key \<lparr>ftype = ty, name = nm, ownValue = own, inputOptions = opts\<rparr>) = Some d"
  shows "b_onChange (fst (createPropsGetter ty nm own opts s)) = c"
    and "b_onBlur (fst (createPropsGetter ty nm own opts s)) = d"
  using assms by (simp_all add: createPropsGetter_def getOrSet_def Let_def)

lemma request_keeps:
  "callbacks s k = Some c \<Longrightarrow> callbacks (snd (createPropsGetter ty nm own opts s)) k = Some c"
  by (auto simp: createPropsGetter_def getOrSet_def Let_def split: prod.splits option.splits)

lemma step_keeps: "callbacks s k = Some c \<Longrightarrow> callbacks (step x s) k = Some c"
proof (cases x)
  case (Invoke cl e)
  assume "callbacks s k = Some c"
  then show ?thesis using Invoke
    by (simp del: step.simps add: step_Invoke after_change_frame onBlur_callbacks
        split: handler_body.splits)
qed (simp_all add: request_keeps get_value_def get_checked_def setInitialValue_def render_def
      store_defs Let_def)

lemma run_keeps: "callbacks s k = Some c \<Longrightarrow> callbacks (run ops s) k = Some c"
  unfolding run_def
  by (induction ops arbitrary: s) (simp_all add: step_keeps)

lemma key_own: "toString own' = toString own \<Longrightarrow>
  key \<lparr>ftype = ty, name = nm, ownValue = own', inputOptions = opts'\<rparr>
   = key \<lparr>ftype = ty, name = nm, ownValue = own, inputOptions = opts\<rparr>"
  by (simp add: key_def)

text \<open>
  C8: two binding requests for the same type, name and own value (the same stringified
  own value is enough), with any options and with any operations of the host between
  them, return the same \<open>onChange\<close> function object and the same \<open>onBlur\<close> function
  object: the second request gets the closures the first one cached.
\<close>

theorem handler_identity_stable:
  assumes "toString own' = toString own"
  shows "b_onChange (fst (createPropsGetter ty nm own' opts'
              (run ops (snd (createPropsGetter ty nm own opts s)))))
           = b_onChange (fst (createPropsGetter ty nm own opts s))
       \<and> b_onBlur (fst (createPropsGetter ty nm own' opts'
              (run ops (snd (createPropsGetter ty nm own opts s)))))
           = b_onBlur (fst (createPropsGetter ty nm own opts s))"
proof -
  let ?s1 = "snd (createPropsGetter ty nm own opts s)"
  let ?k = "key \<lparr>ftype = ty, name = nm, ownValue = own', inputOptions = opts'\<rparr>"
  have k: "?k = key \<lparr>ftype = ty, name = nm, ownValue = own, inputOptions = opts\<rparr>"
    by (rule key_own [OF assms])
  have c: "callbacks (run ops ?s1) (ON_BLUR_HANDLER, ?k)
             = Some (b_onChange (fst (createPropsGetter ty nm own opts s)))"
    unfolding k by (rule run_keeps) (rule request_stores)
  have d: "callbacks (run ops ?s1) (ON_CHANGE_HANDLER, ?k)
             = Some (b_onBlur (fst (createPropsGetter ty nm own opts s)))"
    unfolding k by (rule run_keeps) (rule request_stores)
  from request_cached [OF c d] show ?thesis by simp
qed

theorem handler_identity_stable_witness:
  "toString (Str ''red'') = toString (Str ''red'')
   \<and> fn_id (b_onChange (fst (createPropsGetter CHECKBOX ''opt'' (Str ''red'')
              (validated_by required)
              (run [Render] (snd (createPropsGetter CHECKBOX ''opt'' (Str ''red'') no_options
                 mount)))))) = 0
   \<and> fn_id (b_onBlur (fst (createPropsGetter CHECKBOX ''opt'' (Str ''red'')
              (validated_by required)
              (run [Render] (snd (createPropsGetter CHECKBOX ''opt'' (Str ''red'') no_options
                 mount)))))) = 1"
proof -
  have first:
    "fn_id (b_onChange (fst (createPropsGetter CHECKBOX ''opt'' (Str ''red'') no_options mount)))
       = 0"
    "fn_id (b_onBlur (fst (createPropsGetter CHECKBOX ''opt'' (Str ''red'') no_options mount)))
       = 1"
    by (simp_all add: createPropsGetter_def getOrSet_def mount_def init_engine_def Let_def)
  from handler_identity_stable [of "Str ''red''" "Str ''red''" CHECKBOX "''opt''"
      "validated_by required" "[Render]" no_options mount] first
  show ?thesis by simp
qed

end
